theory Spec2Isabelle
  imports Main "HOL-Library.Multiset" "HOL-Library.List_Lexorder" "HOL-Library.Char_ord"
    "HOL-Library.AList"
begin

chapter \<open>The cloud client (src/unnamed/part\_000) and the share resolver
  (src/backend/tianyi\_share\_resolver.js)\<close>

text \<open>
  The two Node scripts are embedded as HOL functions. A JavaScript string is a
  \<^typ>\<open>string\<close>: a list of code units, here the code units below 256. A value read from a
  JSON body is a \<open>json\<close> tree; a property that is missing reads as \<open>undefined\<close>, which
  is \<^term>\<open>None\<close> of \<open>json option\<close>. A thrown \<open>Error\<close> is the left injection of a sum. The
  network is a function from the requests issued so far (the current one last) to the
  response of the current one, so that a run returns its result together with the list of
  requests it has issued.
\<close>

section \<open>Strings\<close>

text \<open>\<open>String.prototype.trim\<close>: white space and line terminators, among the code units
  below 256: TAB, LF, VT, FF, CR, SP and NBSP.\<close>

definition is_js_space :: "char \<Rightarrow> bool" where
  "is_js_space c \<longleftrightarrow> (of_char c :: nat) \<in> set [9, 10, 11, 12, 13, 32, 160]"

definition trim :: "string \<Rightarrow> string" where
  "trim s = rev (dropWhile is_js_space (rev (dropWhile is_js_space s)))"

text \<open>\<open>Array.prototype.join\<close> on strings.\<close>

fun join :: "string \<Rightarrow> string list \<Rightarrow> string" where
  "join sep [] = []"
| "join sep [x] = x"
| "join sep (x # y # ys) = x @ sep @ join sep (y # ys)"

text \<open>\<open>toUpperCase\<close> on the letters \<open>a\<close> to \<open>z\<close>; the source applies it to HTTP methods and to
  hexadecimal digits.\<close>

definition upper_char :: "char \<Rightarrow> char" where
  "upper_char c =
     (case map_of (zip ''abcdefghijklmnopqrstuvwxyz'' ''ABCDEFGHIJKLMNOPQRSTUVWXYZ'') c of
        Some u \<Rightarrow> u
      | None \<Rightarrow> c)"

definition toUpperCase :: "string \<Rightarrow> string" where
  "toUpperCase s = map upper_char s"

text \<open>\<open>String(n)\<close> of an integer: its decimal digits.\<close>

definition digit_char :: "nat \<Rightarrow> char" where
  "digit_char d = ''0123456789'' ! d"

fun show_nat :: "nat \<Rightarrow> string" where
  "show_nat n = (if n < 10 then [digit_char n] else show_nat (n div 10) @ [digit_char (n mod 10)])"

declare show_nat.simps [simp del]

definition show_int :: "int \<Rightarrow> string" where
  "show_int i = (if i < 0 then CHR ''-'' # show_nat (nat (- i)) else show_nat (nat i))"

section \<open>JSON values and the conversions the scripts apply to them\<close>

text \<open>A JSON number is held as an integer: the result codes, counts and sizes the client
  reads are integral.\<close>

datatype json =
    JNull
  | JBool bool
  | JNum int
  | JStr string
  | JArr "json list"
  | JObj "(string \<times> json) list"

text \<open>\<open>payload.key\<close>: \<open>undefined\<close> unless \<open>payload\<close> is an object with that key.\<close>

fun get_prop :: "json option \<Rightarrow> string \<Rightarrow> json option" where
  "get_prop (Some (JObj es)) k = map_of es k"
| "get_prop _ k = None"

text \<open>Truthiness, as \<open>!v\<close>, \<open>v || w\<close> and \<open>v && w\<close> read it.\<close>

fun truthy :: "json option \<Rightarrow> bool" where
  "truthy None = False"
| "truthy (Some JNull) = False"
| "truthy (Some (JBool b)) = b"
| "truthy (Some (JNum n)) = (n \<noteq> 0)"
| "truthy (Some (JStr s)) = (s \<noteq> [])"
| "truthy (Some (JArr _)) = True"
| "truthy (Some (JObj _)) = True"

text \<open>\<open>a ?? b\<close> and \<open>a && b\<close>.\<close>

fun nullish :: "json option \<Rightarrow> json option \<Rightarrow> json option" where
  "nullish None b = b"
| "nullish (Some JNull) b = b"
| "nullish a b = a"

definition js_and :: "json option \<Rightarrow> json option \<Rightarrow> json option" where
  "js_and a b = (if truthy a then b else a)"

text \<open>\<open>String(v)\<close>. An array joins the strings of its elements with a comma, \<open>null\<close>
  elements giving the empty string; a plain object gives \<open>[object Object]\<close>.\<close>

fun js_String :: "json \<Rightarrow> string" where
  "js_String JNull = ''null''"
| "js_String (JBool b) = (if b then ''true'' else ''false'')"
| "js_String (JNum n) = show_int n"
| "js_String (JStr s) = s"
| "js_String (JArr xs) =
     join '','' (map (\<lambda>x. if x = JNull then [] else js_String x) xs)"
| "js_String (JObj es) = ''[object Object]''"

text \<open>\<open>String(v || "")\<close>, the idiom of both scripts.\<close>

definition str_or_empty :: "json option \<Rightarrow> string" where
  "str_or_empty v = (if truthy v then js_String (the v) else [])"

text \<open>\<open>firstString(...values)\<close> (part\_000, lines 89-95).\<close>

fun firstString :: "json option list \<Rightarrow> string" where
  "firstString [] = []"
| "firstString (v # vs) =
     (let text = trim (str_or_empty v) in if text \<noteq> [] then text else firstString vs)"

section \<open>Errors\<close>

text \<open>One constructor for each \<open>throw\<close> of the two scripts that the model reaches. The
  messages of the source are Chinese text with the fields below spliced in; the model
  keeps the fields.\<close>

datatype error =
    BadFormat string                 \<comment> \<open>action: the payload is not a plain object\<close>
  | BusinessError string string string \<comment> \<open>action, code, msg\<close>
  | FetchRejected                    \<comment> \<open>\<open>fetch\<close> itself rejected\<close>
  | RequestFailed nat string         \<comment> \<open>status, endpoint\<close>
  | NotJson string                   \<comment> \<open>endpoint\<close>
  | CannotLocateDirectory string     \<comment> \<open>folder name\<close>
  | UploadBusinessFailed string      \<comment> \<open>uri\<close>
  | InvalidUploadFile
  | MissingUploadFileId
  | MissingPartUrl nat
  | PartPutFailed nat nat            \<comment> \<open>part, status\<close>
  | BadHeaderEncoding
  | InvalidLocalPath
  | DownloadFailed nat               \<comment> \<open>status\<close>
  | StreamFailed
  | StatFailed                       \<comment> \<open>\<open>fs.statSync\<close> of a path with no file\<close>
  | MissingField string
  | UnsupportedAction string
  | StdinInvalid
  | ShareUrlEmpty
  | CookieEmpty
  | ShareUrlInvalid
  | ShareHostInvalid
  | SharePathInvalid

section \<open>ensureSuccessPayload (part\_000, lines 97-116)\<close>

definition codeRaw :: "json \<Rightarrow> json option" where
  "codeRaw payload =
     nullish (get_prop (Some payload) ''res_code'')
       (nullish (get_prop (Some payload) ''resCode'')
         (nullish (get_prop (Some payload) ''code'') (get_prop (Some payload) ''errorCode'')))"

definition resultCode :: "json \<Rightarrow> string" where
  "resultCode payload =
     trim (case codeRaw payload of None \<Rightarrow> [] | Some JNull \<Rightarrow> [] | Some v \<Rightarrow> js_String v)"

definition ensureSuccessPayload :: "json \<Rightarrow> string \<Rightarrow> error + unit" where
  "ensureSuccessPayload payload action =
     (case payload of
        JObj es \<Rightarrow>
          (let code = resultCode payload in
           if code \<noteq> [] \<and> code \<notin> set [''0'', ''SUCCESS'', ''success''] then
             Inl (BusinessError action code
               (firstString (map (get_prop (Some payload))
                  [''msg'', ''message'', ''res_message'', ''resMessage'', ''errorMsg'',
                   ''errorMessage'', ''desc'', ''description''])))
           else Inr ())
      | _ \<Rightarrow> Inl (BadFormat action))"

section \<open>What the platform provides\<close>

text \<open>Functions of Node and its libraries that the scripts call and that are not modelled
  bit by bit. Every definition below takes them as the record \<open>P\<close>; the theorems hold for
  every such record.
  \<^item> \<open>md5\<close>: the MD5 digest of a byte string, as 16 bytes;
  \<^item> \<open>base64\<close>: \<open>Buffer.toString("base64")\<close>;
  \<^item> \<open>localeCompare\<close>: \<open>String.prototype.localeCompare\<close> with no locale argument, a
    negative, zero or positive number;
  \<^item> \<open>strToNum\<close>: \<open>Number(s)\<close> of a string, \<open>None\<close> for \<open>NaN\<close>;
  \<^item> \<open>encodeURIComponent\<close>, and \<open>decodeURIComponent\<close>, which throws (\<open>None\<close>) on a
    malformed escape;
  \<^item> \<open>jsonStringify\<close>: \<open>JSON.stringify\<close>.\<close>

record platform =
  md5 :: "string \<Rightarrow> string"
  base64 :: "string \<Rightarrow> string"
  localeCompare :: "string \<Rightarrow> string \<Rightarrow> int"
  strToNum :: "string \<Rightarrow> int option"
  encodeURIComponent :: "string \<Rightarrow> string"
  decodeURIComponent :: "string \<Rightarrow> string option"
  jsonStringify :: "json \<Rightarrow> string"

text \<open>\<open>Number(v)\<close>, \<open>None\<close> for \<open>NaN\<close>: an array or an object converts through its
  string.\<close>

fun js_Number :: "platform \<Rightarrow> json option \<Rightarrow> int option" where
  "js_Number P None = None"
| "js_Number P (Some JNull) = Some 0"
| "js_Number P (Some (JBool b)) = Some (if b then 1 else 0)"
| "js_Number P (Some (JNum n)) = Some n"
| "js_Number P (Some v) = strToNum P (js_String v)"

section \<open>The network\<close>

type_synonym kv = "(string \<times> string) list"

text \<open>A request, by the function of the scripts that issues it. The headers that carry the
  credentials and the signature are left out of the request: no claim reads them.\<close>

datatype request =
    OpenApi string string kv kv   \<comment> \<open>\<open>requestOpenApi\<close>: method, endpoint, query, form\<close>
  | ApiSigned string kv           \<comment> \<open>\<open>requestApiSigned\<close>: endpoint, query\<close>
  | JsonGet string                \<comment> \<open>\<open>requestJsonGet\<close>: url\<close>
  | UploadApi string kv           \<comment> \<open>\<open>uploadRequest\<close>: uri, form\<close>
  | PutPart string kv string      \<comment> \<open>the raw PUT of a part: url, headers, body\<close>
  | Download string               \<comment> \<open>the GET of \<open>downloadUrlToFile\<close>: url\<close>
  | ShareGet string kv            \<comment> \<open>\<open>requestText\<close> of the share resolver: url, extra headers\<close>

text \<open>A response: its status, its body text, what \<open>JSON.parse\<close> makes of the text (\<open>None\<close>
  when it throws), the final URL after redirects, and for a download the body stream: the
  chunks it delivers and whether it then ends normally (\<open>True\<close>) or fails.\<close>

record response =
  resp_status :: nat
  resp_text :: string
  resp_json :: "json option"
  resp_url :: string
  resp_body :: "(string list \<times> bool) option"

definition resp_ok :: "response \<Rightarrow> bool" where
  "resp_ok r \<longleftrightarrow> 200 \<le> resp_status r \<and> resp_status r \<le> 299"

text \<open>The network answers the last request of the list, knowing the earlier ones; \<open>None\<close> is
  \<open>fetch\<close> rejecting.\<close>

type_synonym net = "request list \<Rightarrow> response option"

definition fetch :: "net \<Rightarrow> request list \<Rightarrow> request \<Rightarrow> response option \<times> request list" where
  "fetch net log req = (net (log @ [req]), log @ [req])"

text \<open>\<open>requestOpenApi\<close> (part\_000, lines 127-176). The method is upper-cased and the
  form is sent for a method other than GET only. \<open>parseJsonSafe\<close> gives \<open>null\<close> for a
  body that does not parse, and a falsy payload is refused.\<close>

definition requestOpenApi ::
  "net \<Rightarrow> request list \<Rightarrow> string \<Rightarrow> string \<Rightarrow> kv \<Rightarrow> kv \<Rightarrow> (error + json) \<times> request list" where
  "requestOpenApi net log method endpoint query form =
     (case fetch net log
             (OpenApi (toUpperCase method) endpoint query
                (if toUpperCase method = ''GET'' then [] else form)) of
        (None, log') \<Rightarrow> (Inl FetchRejected, log')
      | (Some r, log') \<Rightarrow>
          if \<not> resp_ok r then (Inl (RequestFailed (resp_status r) endpoint), log')
          else if \<not> truthy (resp_json r) then (Inl (NotJson endpoint), log')
          else (Inr (the (resp_json r)), log'))"

section \<open>Listing the folders of a directory (part\_000, lines 232-270)\<close>

record folder =
  folder_id :: string
  folder_name :: string

definition is_object :: "json \<Rightarrow> bool" where
  "is_object v = (case v of JArr _ \<Rightarrow> True | JObj _ \<Rightarrow> True | _ \<Rightarrow> False)"

definition listFiles_query :: "nat \<Rightarrow> string \<Rightarrow> kv" where
  "listFiles_query pageNum parentFolderId =
     [(''pageSize'', ''60''), (''pageNum'', show_nat pageNum), (''mediaType'', ''0''),
      (''folderId'', parentFolderId), (''iconOption'', ''5''), (''orderBy'', ''lastOpTime''),
      (''descending'', ''true'')]"

text \<open>The body of \<open>folderList.forEach\<close>: the folders one page adds.\<close>

fun page_folders :: "json list \<Rightarrow> folder list" where
  "page_folders [] = []"
| "page_folders (item # items) =
     (if \<not> is_object item then page_folders items
      else
        let fid = firstString (map (get_prop (Some item)) [''id'', ''folderId'', ''fileId'']);
            name = firstString (map (get_prop (Some item)) [''name'', ''folderName'', ''fileName''])
        in if fid = [] \<or> name = [] then page_folders items
           else \<lparr>folder_id = fid, folder_name = name\<rparr> # page_folders items)"

definition fileListAO_of :: "json \<Rightarrow> json option" where
  "fileListAO_of payload =
     (case get_prop (Some payload) ''fileListAO'' of
        Some v \<Rightarrow> if is_object v then Some v else Some (JObj [])
      | None \<Rightarrow> Some (JObj []))"

definition array_or_empty :: "json option \<Rightarrow> json list" where
  "array_or_empty v = (case v of Some (JArr xs) \<Rightarrow> xs | _ \<Rightarrow> [])"

text \<open>\<open>Math.max(1, Math.ceil(totalCount / 60))\<close> for a number that is not \<open>NaN\<close>.\<close>

definition pageCount_of :: "int \<Rightarrow> int" where
  "pageCount_of totalCount = max 1 (- ((- totalCount) div 60))"

definition folderList_of :: "json \<Rightarrow> json list" where
  "folderList_of payload = array_or_empty (get_prop (fileListAO_of payload) ''folderList'')"

text \<open>\<open>Number(fileListAO.count || 0)\<close>.\<close>

definition totalCount_of :: "platform \<Rightarrow> json \<Rightarrow> int option" where
  "totalCount_of P payload =
     (let count = get_prop (fileListAO_of payload) ''count''
      in js_Number P (if truthy count then count else Some (JNum 0)))"

text \<open>Whether one of the two \<open>break\<close>s of the loop fires after a page. With \<open>totalCount\<close>
  \<open>NaN\<close> both comparisons are false.\<close>

definition page_breaks :: "platform \<Rightarrow> nat \<Rightarrow> json \<Rightarrow> bool" where
  "page_breaks P pageNum payload =
     (folderList_of payload = []
      \<or> (case totalCount_of P payload of Some n \<Rightarrow> n \<le> 0 | None \<Rightarrow> False)
      \<or> (case totalCount_of P payload of Some n \<Rightarrow> int pageNum \<ge> pageCount_of n
          | None \<Rightarrow> False))"

text \<open>The \<open>while (pageNum <= 20)\<close> loop.\<close>

function listFolders_loop ::
  "platform \<Rightarrow> net \<Rightarrow> request list \<Rightarrow> string \<Rightarrow> nat \<Rightarrow> folder list
     \<Rightarrow> (error + folder list) \<times> request list" where
  "listFolders_loop P net log parentFolderId pageNum folders =
     (if \<not> pageNum \<le> 20 then (Inr folders, log)
      else
        case requestOpenApi net log ''GET'' ''/api/open/file/listFiles.action''
               (listFiles_query pageNum parentFolderId) [] of
          (Inl e, log') \<Rightarrow> (Inl e, log')
        | (Inr payload, log') \<Rightarrow>
            (case ensureSuccessPayload payload ''listFiles'' of
               Inl e \<Rightarrow> (Inl e, log')
             | Inr _ \<Rightarrow>
                 if page_breaks P pageNum payload
                 then (Inr (folders @ page_folders (folderList_of payload)), log')
                 else listFolders_loop P net log' parentFolderId (pageNum + 1)
                        (folders @ page_folders (folderList_of payload))))"
  by pat_completeness auto
termination
  by (relation "measure (\<lambda>(P, net, log, parent, pageNum, folders). 21 - pageNum)") auto

declare listFolders_loop.simps [simp del]

definition listFolders ::
  "platform \<Rightarrow> net \<Rightarrow> request list \<Rightarrow> string \<Rightarrow> (error + folder list) \<times> request list" where
  "listFolders P net log parentFolderId = listFolders_loop P net log parentFolderId 1 []"

section \<open>Folder names and folder creation (part\_000, lines 318-379)\<close>

definition is_separator :: "char \<Rightarrow> bool" where
  "is_separator c \<longleftrightarrow> c = CHR ''/'' \<or> c = CHR 0x5C"

text \<open>\<open>text.replace(/[\\/]+/g, "_")\<close>: every maximal run of separators becomes one
  underscore.\<close>

function replace_separators :: "string \<Rightarrow> string" where
  "replace_separators [] = []"
| "replace_separators (c # cs) =
     (if is_separator c then CHR ''_'' # replace_separators (dropWhile is_separator cs)
      else c # replace_separators cs)"
  by pat_completeness auto
termination
  by (relation "measure length") (auto simp: length_dropWhile_le less_Suc_eq_le)

definition normalizeFolderName :: "json option \<Rightarrow> string" where
  "normalizeFolderName v = replace_separators (trim (str_or_empty v))"

record attempt =
  att_ok :: bool
  att_endpoint :: string
  att_method :: string
  att_error :: "error option"

record candidate =
  cand_endpoint :: string
  cand_method :: string
  cand_form :: kv

definition taskInfosJson :: "platform \<Rightarrow> string \<Rightarrow> string" where
  "taskInfosJson P folderName =
     jsonStringify P (JArr [JObj [(''fileName'', JStr folderName), (''isFolder'', JNum 1)]])"

definition candidates :: "platform \<Rightarrow> string \<Rightarrow> string \<Rightarrow> candidate list" where
  "candidates P parentFolderId folderName =
     [\<lparr>cand_endpoint = ''/api/open/file/createFolder.action'', cand_method = ''POST'',
        cand_form = [(''folderName'', folderName), (''parentFolderId'', parentFolderId)]\<rparr>,
      \<lparr>cand_endpoint = ''/api/open/file/createFolder.action'', cand_method = ''POST'',
        cand_form = [(''name'', folderName), (''parentFolderId'', parentFolderId)]\<rparr>,
      \<lparr>cand_endpoint = ''/api/open/file/createFolder.action'', cand_method = ''POST'',
        cand_form = [(''folderName'', folderName), (''folderId'', parentFolderId)]\<rparr>,
      \<lparr>cand_endpoint = ''/api/open/batch/createBatchTask.action'', cand_method = ''POST'',
        cand_form = [(''type'', ''CREATE_FOLDER''), (''targetFolderId'', parentFolderId),
                     (''taskInfos'', taskInfosJson P folderName)]\<rparr>,
      \<lparr>cand_endpoint = ''/api/open/batch/createBatchTask.action'', cand_method = ''POST'',
        cand_form = [(''type'', ''MKDIR''), (''targetFolderId'', parentFolderId),
                     (''taskInfos'', taskInfosJson P folderName)]\<rparr>]"

text \<open>One turn of \<open>for (const item of candidates)\<close>: the \<open>try\<close> block and its \<open>catch\<close>.\<close>

definition try_candidate :: "net \<Rightarrow> request list \<Rightarrow> candidate \<Rightarrow> attempt \<times> request list" where
  "try_candidate net log item =
     (case requestOpenApi net log (cand_method item) (cand_endpoint item) [] (cand_form item) of
        (Inl e, log') \<Rightarrow>
          (\<lparr>att_ok = False, att_endpoint = cand_endpoint item, att_method = cand_method item,
            att_error = Some e\<rparr>, log')
      | (Inr payload, log') \<Rightarrow>
          (case ensureSuccessPayload payload (''createFolder:'' @ cand_endpoint item) of
             Inl e \<Rightarrow>
               (\<lparr>att_ok = False, att_endpoint = cand_endpoint item, att_method = cand_method item,
                 att_error = Some e\<rparr>, log')
           | Inr _ \<Rightarrow>
               (\<lparr>att_ok = True, att_endpoint = cand_endpoint item, att_method = cand_method item,
                 att_error = None\<rparr>, log')))"

fun candidates_loop ::
  "net \<Rightarrow> request list \<Rightarrow> candidate list \<Rightarrow> attempt list \<Rightarrow> attempt list \<times> request list" where
  "candidates_loop net log [] attempts = (attempts, log)"
| "candidates_loop net log (item # items) attempts =
     (case try_candidate net log item of
        (a, log') \<Rightarrow> candidates_loop net log' items (attempts @ [a]))"

definition createFolderCandidates ::
  "platform \<Rightarrow> net \<Rightarrow> request list \<Rightarrow> string \<Rightarrow> string \<Rightarrow> attempt list \<times> request list" where
  "createFolderCandidates P net log parentFolderId folderName =
     candidates_loop net log (candidates P parentFolderId folderName) []"

section \<open>ensureFolderPath and findFolderPath (part\_000, lines 381-451)\<close>

definition ROOT_FOLDER_ID :: string where
  "ROOT_FOLDER_ID = ''-11''"

datatype trace_entry =
    EnsureCreated string string bool "attempt list"
      \<comment> \<open>parent\_folder\_id, folder\_name, created, attempts\<close>
  | EnsureFound string string      \<comment> \<open>parent\_folder\_id, folder\_name; created false, found true\<close>
  | FindFolder string string bool  \<comment> \<open>parent\_folder\_id, folder\_name, found\<close>

definition find_folder :: "string \<Rightarrow> folder list \<Rightarrow> folder option" where
  "find_folder folderName folders = List.find (\<lambda>item. folder_name item = folderName) folders"

text \<open>The body of the \<open>for\<close> loop of \<open>ensureFolderPath\<close> for a segment whose normalized
  name is not empty: the new parent and the trace entry, or the error thrown.\<close>

definition ensure_segment ::
  "platform \<Rightarrow> net \<Rightarrow> request list \<Rightarrow> string \<Rightarrow> string
     \<Rightarrow> (error + string \<times> trace_entry) \<times> request list" where
  "ensure_segment P net log parentFolderId folderName =
     (case listFolders P net log parentFolderId of
        (Inl e, log1) \<Rightarrow> (Inl e, log1)
      | (Inr folders, log1) \<Rightarrow>
          (case find_folder folderName folders of
             None \<Rightarrow>
               (case createFolderCandidates P net log1 parentFolderId folderName of
                  (attempts, log2) \<Rightarrow>
                    (case listFolders P net log2 parentFolderId of
                       (Inl e, log3) \<Rightarrow> (Inl e, log3)
                     | (Inr refreshed, log3) \<Rightarrow>
                         (case find_folder folderName refreshed of
                            None \<Rightarrow> (Inl (CannotLocateDirectory folderName), log3)
                          | Some found \<Rightarrow>
                              if folder_id found = [] then
                                (Inl (CannotLocateDirectory folderName), log3)
                              else
                                (Inr (folder_id found,
                                      EnsureCreated parentFolderId folderName True attempts),
                                 log3))))
           | Some found \<Rightarrow>
               if folder_id found = [] then (Inl (CannotLocateDirectory folderName), log1)
               else (Inr (folder_id found, EnsureFound parentFolderId folderName), log1)))"

fun ensureFolderPath_loop ::
  "platform \<Rightarrow> net \<Rightarrow> request list \<Rightarrow> string \<Rightarrow> trace_entry list \<Rightarrow> json list
     \<Rightarrow> (error + string \<times> trace_entry list) \<times> request list" where
  "ensureFolderPath_loop P net log parentFolderId trace [] = (Inr (parentFolderId, trace), log)"
| "ensureFolderPath_loop P net log parentFolderId trace (rawPart # parts) =
     (let folderName = normalizeFolderName (Some rawPart) in
      if folderName = [] then ensureFolderPath_loop P net log parentFolderId trace parts
      else
        case ensure_segment P net log parentFolderId folderName of
          (Inl e, log') \<Rightarrow> (Inl e, log')
        | (Inr (fid, entry), log') \<Rightarrow>
            ensureFolderPath_loop P net log' fid (trace @ [entry]) parts)"

definition ensureFolderPath ::
  "platform \<Rightarrow> net \<Rightarrow> request list \<Rightarrow> json list
     \<Rightarrow> (error + string \<times> trace_entry list) \<times> request list" where
  "ensureFolderPath P net log parts = ensureFolderPath_loop P net log ROOT_FOLDER_ID [] parts"

text \<open>\<open>findFolderPath\<close> returns an object in both cases: \<open>ok\<close>, \<open>folderId\<close>, \<open>trace\<close>, and for
  a missing folder \<open>reason: "folder_not_found"\<close> with \<open>missing_name\<close>.\<close>

datatype find_result =
    FolderFound string "trace_entry list"       \<comment> \<open>ok true: folderId, trace\<close>
  | FolderNotFound string "trace_entry list"    \<comment> \<open>ok false: missing\_name, trace\<close>

fun findFolderPath_loop ::
  "platform \<Rightarrow> net \<Rightarrow> request list \<Rightarrow> string \<Rightarrow> trace_entry list \<Rightarrow> json list
     \<Rightarrow> (error + find_result) \<times> request list" where
  "findFolderPath_loop P net log parentFolderId trace [] =
     (Inr (FolderFound parentFolderId trace), log)"
| "findFolderPath_loop P net log parentFolderId trace (rawPart # parts) =
     (let folderName = normalizeFolderName (Some rawPart) in
      if folderName = [] then findFolderPath_loop P net log parentFolderId trace parts
      else
        case listFolders P net log parentFolderId of
          (Inl e, log') \<Rightarrow> (Inl e, log')
        | (Inr folders, log') \<Rightarrow>
            (case find_folder folderName folders of
               None \<Rightarrow>
                 (Inr (FolderNotFound folderName
                         (trace @ [FindFolder parentFolderId folderName False])), log')
             | Some found \<Rightarrow>
                 if folder_id found = [] then
                   (Inr (FolderNotFound folderName
                           (trace @ [FindFolder parentFolderId folderName True])), log')
                 else
                   findFolderPath_loop P net log' (folder_id found)
                     (trace @ [FindFolder parentFolderId folderName True]) parts))"

definition findFolderPath ::
  "platform \<Rightarrow> net \<Rightarrow> request list \<Rightarrow> json list \<Rightarrow> (error + find_result) \<times> request list" where
  "findFolderPath P net log parts = findFolderPath_loop P net log ROOT_FOLDER_ID [] parts"

section \<open>The result code as the specification words it\<close>

text \<open>The result code of a response object is the first of \<open>res_code\<close>, \<open>resCode\<close>, \<open>code\<close>
  and \<open>errorCode\<close> that is present, that is, neither missing nor \<open>null\<close>.\<close>

definition code_keys :: "string list" where
  "code_keys = [''res_code'', ''resCode'', ''code'', ''errorCode'']"

definition first_code :: "(string \<times> json) list \<Rightarrow> json option" where
  "first_code es =
     (case List.find (\<lambda>v. v \<noteq> None \<and> v \<noteq> Some JNull) (map (map_of es) code_keys) of
        None \<Rightarrow> None | Some v \<Rightarrow> v)"

definition message_keys :: "string list" where
  "message_keys = [''msg'', ''message'', ''res_message'', ''resMessage'', ''errorMsg'',
                   ''errorMessage'', ''desc'', ''description'']"

section \<open>Requests of the folder creation, and inputs to run the model on\<close>

definition cand_request :: "candidate \<Rightarrow> request" where
  "cand_request item =
     OpenApi (toUpperCase (cand_method item)) (cand_endpoint item) []
       (if toUpperCase (cand_method item) = ''GET'' then [] else cand_form item)"

text \<open>A platform to evaluate with: the theorems quantify over the platform, their
  instances at concrete inputs need one.\<close>

definition sample_platform :: platform where
  "sample_platform =
     \<lparr>md5 = (\<lambda>bytes. take 16 bytes), base64 = (\<lambda>bytes. bytes),
      localeCompare = (\<lambda>a b. if a < b then - 1 else if a = b then 0 else 1),
      strToNum = (\<lambda>s. None), encodeURIComponent = (\<lambda>s. s),
      decodeURIComponent = (\<lambda>s. Some s), jsonStringify = js_String\<rparr>"

definition json_response :: "json \<Rightarrow> response" where
  "json_response v = \<lparr>resp_status = 200, resp_text = [],
     resp_json = Some v, resp_url = [], resp_body = None\<rparr>"

definition listing_response :: "(string \<times> string) list \<Rightarrow> response" where
  "listing_response fs =
     json_response (JObj [(''res_code'', JNum 0),
       (''fileListAO'', JObj [(''count'', JNum (int (length fs))),
          (''folderList'',
           JArr (map (\<lambda>(i, n). JObj [(''id'', JStr i), (''name'', JStr n)]) fs))])])"

definition is_post :: "request \<Rightarrow> bool" where
  "is_post r = (case r of OpenApi m ep q f \<Rightarrow> m = ''POST'' | _ \<Rightarrow> False)"

text \<open>A server on which the three plain create calls succeed and the two batch calls are
  refused, and which lists the folder \<open>saves\<close> once a create call has been made.\<close>

definition creating_net :: net where
  "creating_net log =
     (case last log of
        OpenApi m ep q f \<Rightarrow>
          if m = ''POST'' then
            (if ep = ''/api/open/file/createFolder.action''
             then Some (json_response (JObj [(''res_code'', JNum 0)]))
             else Some ((json_response JNull)\<lparr>resp_status := 403\<rparr>))
          else if list_ex is_post log then Some (listing_response [(''77'', ''saves'')])
          else Some (listing_response [])
      | _ \<Rightarrow> None)"

text \<open>A server on which every create call is accepted and the listing answers 500 once a
  create call has been made.\<close>

definition relist_fails_net :: net where
  "relist_fails_net log =
     (case last log of
        OpenApi m ep q f \<Rightarrow>
          if m = ''POST'' then Some (json_response (JObj [(''res_code'', JNum 0)]))
          else if list_ex is_post log then Some ((json_response JNull)\<lparr>resp_status := 500\<rparr>)
          else Some (listing_response [])
      | _ \<Rightarrow> None)"

text \<open>A server whose every directory is empty.\<close>

definition empty_net :: net where
  "empty_net log = Some (listing_response [])"

definition first_listing :: request where
  "first_listing =
     OpenApi ''GET'' ''/api/open/file/listFiles.action'' (listFiles_query 1 ''-11'') []"

section \<open>Digests as text\<close>

text \<open>\<open>Buffer.toString("hex")\<close>: two lower-case hexadecimal digits for each byte.\<close>

definition hex_digit :: "nat \<Rightarrow> char" where
  "hex_digit d = ''0123456789abcdef'' ! d"

definition hex_lower :: "string \<Rightarrow> string" where
  "hex_lower bytes =
     concat (map (\<lambda>b. [hex_digit (of_char b div 16), hex_digit (of_char b mod 16)]) bytes)"

text \<open>The UTF-8 bytes of a string of code units below 256.\<close>

definition utf8_encode :: "string \<Rightarrow> string" where
  "utf8_encode s =
     concat (map (\<lambda>c. if (of_char c :: nat) < 128 then [c]
                        else [char_of (192 + of_char c div 64 :: nat),
                              char_of (128 + of_char c mod 64 :: nat)]) s)"

text \<open>\<open>md5Hex(text)\<close> (part\_000, lines 31-33).\<close>

definition md5Hex :: "platform \<Rightarrow> string \<Rightarrow> string" where
  "md5Hex P text = hex_lower (md5 P (utf8_encode text))"

section \<open>The upload (part\_000, lines 499-676)\<close>

text \<open>\<open>uploadRequest\<close>. The random seed, the AES, HMAC and RSA envelope and the headers
  are not modelled; an exception raised while the envelope is built is the network's
  \<open>None\<close>, like \<open>fetch\<close> rejecting.\<close>

definition uploadRequest ::
  "net \<Rightarrow> request list \<Rightarrow> string \<Rightarrow> kv \<Rightarrow> (error + json) \<times> request list" where
  "uploadRequest net log uri form =
     (case fetch net log (UploadApi uri form) of
        (None, log') \<Rightarrow> (Inl FetchRejected, log')
      | (Some r, log') \<Rightarrow>
          if \<not> resp_ok r then (Inl (RequestFailed (resp_status r) uri), log')
          else if \<not> truthy (resp_json r) then (Inl (NotJson uri), log')
          else if trim (str_or_empty (get_prop (resp_json r) ''code'')) \<noteq> ''SUCCESS''
          then (Inl (UploadBusinessFailed uri), log')
          else (Inr (the (resp_json r)), log'))"

text \<open>\<open>text.split("&")\<close> and \<open>pair.indexOf("=")\<close>.\<close>

fun split_on :: "char \<Rightarrow> string \<Rightarrow> string list" where
  "split_on sep [] = [[]]"
| "split_on sep (c # cs) =
     (if c = sep then [] # split_on sep cs
      else case split_on sep cs of [] \<Rightarrow> [[c]] | x # xs \<Rightarrow> (c # x) # xs)"

definition index_of :: "char \<Rightarrow> string \<Rightarrow> nat option" where
  "index_of c s = (if c \<in> set s then Some (length (takeWhile (\<lambda>x. x \<noteq> c) s)) else None)"

text \<open>\<open>parseRequestHeaderPairs\<close> (lines 543-555); \<open>None\<close> when \<open>decodeURIComponent\<close>
  throws. A header set twice keeps its first place and its last value.\<close>

definition add_header_pair :: "string \<Rightarrow> kv \<Rightarrow> kv" where
  "add_header_pair pair headers =
     (if pair = [] then headers
      else case index_of CHR ''='' pair of
             None \<Rightarrow> headers
           | Some idx \<Rightarrow>
               if idx \<le> 0 then headers
               else AList.update (take idx pair) (drop (idx + 1) pair) headers)"

definition parseRequestHeaderPairs :: "platform \<Rightarrow> json option \<Rightarrow> kv option" where
  "parseRequestHeaderPairs P rawHeader =
     (case decodeURIComponent P (str_or_empty rawHeader) of
        None \<Rightarrow> None
      | Some text \<Rightarrow> Some (fold add_header_pair (split_on CHR ''&'' text) []))"

text \<open>The local file, as \<open>fs.statSync\<close> and \<open>fs.readSync\<close> see it. The file does not
  change during the upload.\<close>

datatype local_file = NoEntry | Directory | RegularFile string

definition DEFAULT_SLICE_SIZE :: nat where
  "DEFAULT_SLICE_SIZE = 10 * 1024 * 1024"

text \<open>\<open>Math.max(1024 * 1024, Number(sliceSize || DEFAULT_SLICE_SIZE))\<close>: a slice size that
  is not given, or is 0, is the default.\<close>

definition chunkSize_of :: "nat option \<Rightarrow> nat" where
  "chunkSize_of sliceSize =
     max (1024 * 1024)
       (case sliceSize of None \<Rightarrow> DEFAULT_SLICE_SIZE
        | Some n \<Rightarrow> if n = 0 then DEFAULT_SLICE_SIZE else n)"

text \<open>\<open>Math.max(1, Math.ceil(fileSize / chunkSize))\<close>.\<close>

definition chunkCount_of :: "nat \<Rightarrow> nat \<Rightarrow> nat" where
  "chunkCount_of fileSize chunkSize = max 1 ((fileSize + chunkSize - 1) div chunkSize)"

text \<open>The bytes of part \<open>i\<close>: \<open>readSync\<close> of \<open>size\<close> bytes at \<open>offset\<close>. The buffer is
  cut to the bytes read, which for a file that does not change are \<open>size\<close> bytes.\<close>

definition chunkBuffer_of :: "string \<Rightarrow> nat \<Rightarrow> nat \<Rightarrow> string" where
  "chunkBuffer_of content chunkSize i =
     (let offset = (i - 1) * chunkSize;
          size = min chunkSize (length content - offset)
      in take size (drop offset content))"

definition uploadUrls_of :: "json \<Rightarrow> json" where
  "uploadUrls_of urlPayload =
     (case get_prop (Some urlPayload) ''uploadUrls'' of
        Some v \<Rightarrow> if is_object urlPayload \<and> is_object v then v else JObj []
      | None \<Rightarrow> JObj [])"

text \<open>One turn of the \<open>for\<close> loop over the parts (lines 596-638): the upper-case hex
  digest of the part and its bytes, or the error thrown.\<close>

definition upload_part ::
  "platform \<Rightarrow> net \<Rightarrow> request list \<Rightarrow> string \<Rightarrow> nat \<Rightarrow> string \<Rightarrow> nat
     \<Rightarrow> (error + string \<times> string) \<times> request list" where
  "upload_part P net log content chunkSize uploadFileId i =
     (let chunkBuffer = chunkBuffer_of content chunkSize i;
          md5Bytes = md5 P chunkBuffer;
          md5HexUpper = toUpperCase (hex_lower md5Bytes);
          md5Base64 = base64 P md5Bytes
      in case uploadRequest net log ''/person/getMultiUploadUrls''
                [(''partInfo'', show_nat i @ ''-'' @ md5Base64), (''uploadFileId'', uploadFileId)] of
           (Inl e, log1) \<Rightarrow> (Inl e, log1)
         | (Inr urlPayload, log1) \<Rightarrow>
             let uploadData = get_prop (Some (uploadUrls_of urlPayload)) (''partNumber_'' @ show_nat i);
                 requestURL = (if truthy uploadData \<and> truthy (get_prop uploadData ''requestURL'')
                               then js_String (the (get_prop uploadData ''requestURL'')) else [])
             in if requestURL = [] then (Inl (MissingPartUrl i), log1)
                else
                  case parseRequestHeaderPairs P (get_prop uploadData ''requestHeader'') of
                    None \<Rightarrow> (Inl BadHeaderEncoding, log1)
                  | Some putHeaders \<Rightarrow>
                      (case fetch net log1 (PutPart requestURL putHeaders chunkBuffer) of
                         (None, log2) \<Rightarrow> (Inl FetchRejected, log2)
                       | (Some putResp, log2) \<Rightarrow>
                           if \<not> resp_ok putResp
                           then (Inl (PartPutFailed i (resp_status putResp)), log2)
                           else (Inr (md5HexUpper, chunkBuffer), log2)))"

text \<open>The loop \<open>for (let i = 1; i <= chunkCount; i += 1)\<close>, with the list of part digests
  and the bytes fed to the whole-file hasher so far.\<close>

function upload_parts ::
  "platform \<Rightarrow> net \<Rightarrow> request list \<Rightarrow> string \<Rightarrow> nat \<Rightarrow> nat \<Rightarrow> string \<Rightarrow> nat
     \<Rightarrow> string list \<Rightarrow> string \<Rightarrow> (error + string list \<times> string) \<times> request list" where
  "upload_parts P net log content chunkSize chunkCount uploadFileId i md5PartHexUpper hashed =
     (if \<not> i \<le> chunkCount then (Inr (md5PartHexUpper, hashed), log)
      else
        case upload_part P net log content chunkSize uploadFileId i of
          (Inl e, log') \<Rightarrow> (Inl e, log')
        | (Inr (md5HexUpper, chunkBuffer), log') \<Rightarrow>
            upload_parts P net log' content chunkSize chunkCount uploadFileId (i + 1)
              (md5PartHexUpper @ [md5HexUpper]) (hashed @ chunkBuffer))"
  by pat_completeness auto
termination
  by (relation "measure (\<lambda>(P, net, log, content, chunkSize, chunkCount, fid, i, m, h).
                  chunkCount + 1 - i)") auto

declare upload_parts.simps [simp del]

record upload_info =
  info_userFileId :: string
  info_fileSize :: nat
  info_chunkCount :: nat
  info_uploadFileId :: string

text \<open>The \<open>uploadFileId\<close> of the init response (lines 582-585) and the \<open>userFileId\<close> of
  the commit response (lines 664-668).\<close>

definition uploadFileId_of :: "json \<Rightarrow> string" where
  "uploadFileId_of initPayload =
     (let data = get_prop (Some initPayload) ''data''
      in firstString [js_and data (get_prop data ''uploadFileId''),
                      get_prop (Some initPayload) ''uploadFileId''])"

definition userFileId_of :: "json \<Rightarrow> string" where
  "userFileId_of commitPayload =
     (let file' = get_prop (Some commitPayload) ''file'';
          data' = get_prop (Some commitPayload) ''data''
      in firstString [js_and file' (get_prop file' ''userFileId''),
                      js_and data' (get_prop data' ''userFileId''),
                      get_prop (Some commitPayload) ''userFileId''])"

definition uploadFileSlices ::
  "platform \<Rightarrow> net \<Rightarrow> request list \<Rightarrow> local_file \<Rightarrow> string \<Rightarrow> string \<Rightarrow> string \<Rightarrow> nat option
     \<Rightarrow> (error + upload_info) \<times> request list" where
  "uploadFileSlices P net log file baseName parentFolderId remoteName sliceSize =
     (case file of
        NoEntry \<Rightarrow> (Inl InvalidLocalPath, log)
      | Directory \<Rightarrow> (Inl InvalidUploadFile, log)
      | RegularFile content \<Rightarrow>
          let fileSize = length content;
              chunkSize = chunkSize_of sliceSize;
              chunkCount = chunkCount_of fileSize chunkSize
          in case uploadRequest net log ''/person/initMultiUpload''
                    [(''parentFolderId'', if parentFolderId = [] then ROOT_FOLDER_ID else parentFolderId),
                     (''fileName'',
                      encodeURIComponent P (if remoteName = [] then baseName else remoteName)),
                     (''fileSize'', show_nat fileSize),
                     (''sliceSize'', show_nat chunkSize),
                     (''lazyCheck'', ''1'')] of
               (Inl e, log1) \<Rightarrow> (Inl e, log1)
             | (Inr initPayload, log1) \<Rightarrow>
                 let uploadFileId = uploadFileId_of initPayload
                 in if uploadFileId = [] then (Inl MissingUploadFileId, log1)
                    else
                      case upload_parts P net log1 content chunkSize chunkCount uploadFileId 1 [] [] of
                        (Inl e, log2) \<Rightarrow> (Inl e, log2)
                      | (Inr (md5PartHexUpper, hashed), log2) \<Rightarrow>
                          let fileMd5 = hex_lower (md5 P hashed);
                              sliceMd5 = (if fileSize \<le> chunkSize then fileMd5
                                          else md5Hex P (join [CHR 10] md5PartHexUpper))
                          in case uploadRequest net log2 ''/person/commitMultiUploadFile''
                                    [(''uploadFileId'', uploadFileId), (''fileMd5'', fileMd5),
                                     (''sliceMd5'', sliceMd5), (''lazyCheck'', ''1''),
                                     (''opertype'', ''3'')] of
                               (Inl e, log3) \<Rightarrow> (Inl e, log3)
                             | (Inr commitPayload, log3) \<Rightarrow>
                                 (Inr \<lparr>info_userFileId = userFileId_of commitPayload,
                                       info_fileSize = fileSize,
                                       info_chunkCount = chunkCount,
                                       info_uploadFileId = uploadFileId\<rparr>, log3))"

section \<open>The parts and the slice digest as the specification words them\<close>

text \<open>Part \<open>i\<close> of a file, for \<open>i\<close> from 1: the bytes from offset \<open>(i - 1) * C\<close>, at most
  \<open>C\<close> of them.\<close>

definition spec_part :: "string \<Rightarrow> nat \<Rightarrow> nat \<Rightarrow> string" where
  "spec_part content C i = take C (drop ((i - 1) * C) content)"

text \<open>\<open>ceil(S / C)\<close>.\<close>

definition ceil_div :: "nat \<Rightarrow> nat \<Rightarrow> nat" where
  "ceil_div S C = (if S mod C = 0 then S div C else S div C + 1)"

definition spec_sliceMd5 :: "platform \<Rightarrow> string \<Rightarrow> nat \<Rightarrow> nat \<Rightarrow> string" where
  "spec_sliceMd5 P content C N =
     (if length content \<le> C then hex_lower (md5 P content)
      else md5Hex P (join [CHR 10]
             (map (\<lambda>i. toUpperCase (hex_lower (md5 P (spec_part content C i)))) [1..<N + 1])))"

text \<open>What a log holds: the forms of the commit requests, the bodies of the part PUTs, and
  the \<open>partInfo\<close> fields of the requests for part URLs.\<close>

definition commit_forms :: "request list \<Rightarrow> kv list" where
  "commit_forms log =
     concat (map (\<lambda>r. case r of
                         UploadApi uri form \<Rightarrow>
                           if uri = ''/person/commitMultiUploadFile'' then [form] else []
                       | _ \<Rightarrow> []) log)"

definition put_bodies :: "request list \<Rightarrow> string list" where
  "put_bodies log = concat (map (\<lambda>r. case r of PutPart url hs body \<Rightarrow> [body] | _ \<Rightarrow> []) log)"

definition part_infos :: "request list \<Rightarrow> string list" where
  "part_infos log =
     concat (map (\<lambda>r. case r of
                         UploadApi uri form \<Rightarrow>
                           if uri = ''/person/getMultiUploadUrls''
                           then [the (map_of form ''partInfo'')] else []
                       | _ \<Rightarrow> []) log)"

text \<open>The \<open>partInfo\<close> field of the request for the URL of part \<open>i\<close>, and the digest text
  of part \<open>i\<close> kept for the slice digest.\<close>

definition part_info :: "platform \<Rightarrow> string \<Rightarrow> nat \<Rightarrow> nat \<Rightarrow> string" where
  "part_info P content C i = show_nat i @ ''-'' @ base64 P (md5 P (spec_part content C i))"

definition part_hex :: "platform \<Rightarrow> string \<Rightarrow> nat \<Rightarrow> nat \<Rightarrow> string" where
  "part_hex P content C i = toUpperCase (hex_lower (md5 P (spec_part content C i)))"

text \<open>The form of the commit request, with the digests as the specification words
  them.\<close>

definition commit_form :: "platform \<Rightarrow> string \<Rightarrow> nat \<Rightarrow> string \<Rightarrow> kv" where
  "commit_form P content C fid =
     [(''uploadFileId'', fid), (''fileMd5'', hex_lower (md5 P content)),
      (''sliceMd5'', spec_sliceMd5 P content C (ceil_div (length content) C)),
      (''lazyCheck'', ''1''), (''opertype'', ''3'')]"

text \<open>An upload server that accepts everything: it names the upload \<open>u1\<close>, gives a URL
  for the part asked for, accepts every PUT and answers the commit with the file id
  \<open>f1\<close>.\<close>

definition success_with :: "(string \<times> json) list \<Rightarrow> response" where
  "success_with fs = json_response (JObj ((''code'', JStr ''SUCCESS'') # fs))"

definition upload_net :: net where
  "upload_net log =
     (case last log of
        UploadApi uri form \<Rightarrow>
          if uri = ''/person/initMultiUpload''
          then Some (success_with [(''data'', JObj [(''uploadFileId'', JStr ''u1'')])])
          else if uri = ''/person/getMultiUploadUrls''
          then Some (success_with
                 [(''uploadUrls'',
                   JObj [(''partNumber_'' @ takeWhile (\<lambda>c. c \<noteq> CHR ''-'') (the (map_of form ''partInfo'')),
                          JObj [(''requestURL'', JStr ''https://store/put''),
                                (''requestHeader'', JStr ''x-id=7'')])])])
          else Some (success_with [(''file'', JObj [(''userFileId'', JStr ''f1'')])])
      | PutPart url hs body \<Rightarrow> Some (json_response JNull)
      | _ \<Rightarrow> None)"

text \<open>A file one byte longer than the smallest chunk size.\<close>

definition two_chunk_file :: string where
  "two_chunk_file = replicate 1048577 (CHR ''a'')"

section \<open>The open-API signature (part\_000, lines 35-40 and 128-134)\<close>

text \<open>\<open>Array.prototype.sort\<close> with a comparator. The sort is stable, and for a comparator
  that is a total preorder its result is the stable sorting, which inserting from the
  right computes. (For a comparator that is not, ECMAScript leaves the order to the
  implementation.)\<close>

fun insert_by :: "('a \<Rightarrow> 'a \<Rightarrow> int) \<Rightarrow> 'a \<Rightarrow> 'a list \<Rightarrow> 'a list" where
  "insert_by cmp x [] = [x]"
| "insert_by cmp x (y # ys) = (if cmp x y \<le> 0 then x # y # ys else y # insert_by cmp x ys)"

definition js_sort :: "('a \<Rightarrow> 'a \<Rightarrow> int) \<Rightarrow> 'a list \<Rightarrow> 'a list" where
  "js_sort cmp xs = foldr (insert_by cmp) xs []"

text \<open>The parameters are the list \<open>Object.entries(params)\<close>, a value that is \<open>undefined\<close>
  being \<open>None\<close>. The filter keeps the entries whose value is neither \<open>undefined\<close> nor
  \<open>null\<close>.\<close>

definition is_kept :: "json option \<Rightarrow> bool" where
  "is_kept v \<longleftrightarrow> v \<noteq> None \<and> v \<noteq> Some JNull"

definition kept_entries :: "(string \<times> json option) list \<Rightarrow> (string \<times> json) list" where
  "kept_entries params = map (\<lambda>(k, v). (k, the v)) (filter (\<lambda>(k, v). is_kept v) params)"

definition pair_text :: "string \<times> json \<Rightarrow> string" where
  "pair_text e = fst e @ ''='' @ js_String (snd e)"

definition signText :: "platform \<Rightarrow> (string \<times> json option) list \<Rightarrow> string" where
  "signText P params =
     join ''&'' (map pair_text
       (js_sort (\<lambda>a b. localeCompare P (fst a) (fst b)) (kept_entries params)))"

definition md5Signature :: "platform \<Rightarrow> (string \<times> json option) list \<Rightarrow> string" where
  "md5Signature P params = md5Hex P (signText P params)"

definition APP_KEY :: string where
  "APP_KEY = ''600100422''"

text \<open>\<open>signParams\<close> of \<open>requestOpenApi\<close>: the query, for a method other than GET
  overwritten by the form, then \<open>Timestamp\<close> and \<open>AppKey\<close>; and the \<open>Signature\<close>
  header.\<close>

definition signParams :: "string \<Rightarrow> kv \<Rightarrow> kv \<Rightarrow> string \<Rightarrow> (string \<times> json option) list" where
  "signParams method query form ts =
     map (\<lambda>(k, v). (k, Some (JStr v)))
       (AList.update ''AppKey'' APP_KEY
         (AList.update ''Timestamp'' ts
           (if toUpperCase method = ''GET'' then query
            else fold (\<lambda>(k, v). AList.update k v) form query)))"

definition openApi_signature :: "platform \<Rightarrow> string \<Rightarrow> kv \<Rightarrow> kv \<Rightarrow> string \<Rightarrow> string" where
  "openApi_signature P method query form ts = md5Signature P (signParams method query form ts)"

section \<open>The signature as the specification words it, and two comparators\<close>

text \<open>Ordinal comparison of strings is the lexicographic order of their code units, which
  is the order of \<^typ>\<open>string\<close>. The specification sorts the kept entries by key in this
  order.\<close>

definition ordinal_compare :: "string \<Rightarrow> string \<Rightarrow> int" where
  "ordinal_compare a b = (if a < b then - 1 else if a = b then 0 else 1)"

definition spec_signText :: "(string \<times> json option) list \<Rightarrow> string" where
  "spec_signText params = join ''&'' (map pair_text (sort_key fst (kept_entries params)))"

text \<open>How \<open>localeCompare\<close> orders two strings of ASCII letters in the root collation:
  alphabetically without regard to case, and among strings equal up to case the one with
  the lower-case letter at the first difference comes first.\<close>

definition lower_char :: "char \<Rightarrow> char" where
  "lower_char c =
     (case map_of (zip ''ABCDEFGHIJKLMNOPQRSTUVWXYZ'' ''abcdefghijklmnopqrstuvwxyz'') c of
        Some l \<Rightarrow> l
      | None \<Rightarrow> c)"

definition letters_compare :: "string \<Rightarrow> string \<Rightarrow> int" where
  "letters_compare a b =
     (if map lower_char a < map lower_char b then - 1
      else if map lower_char b < map lower_char a then 1
      else if a = b then 0
      else if b < a then - 1 else 1)"

definition letters_platform :: platform where
  "letters_platform = sample_platform\<lparr>localeCompare := letters_compare\<rparr>"

text \<open>A comparator is consistent on a list of keys when it is a total preorder there, and
  it separates the keys when no two different keys compare as equal.\<close>

definition consistent_on :: "(string \<Rightarrow> string \<Rightarrow> int) \<Rightarrow> string list \<Rightarrow> bool" where
  "consistent_on cmp keys \<longleftrightarrow>
     (\<forall>a\<in>set keys. \<forall>b\<in>set keys.
        (cmp a b \<le> 0 \<or> cmp b a \<le> 0)
        \<and> (\<forall>c\<in>set keys. cmp a b \<le> 0 \<and> cmp b c \<le> 0 \<longrightarrow> cmp a c \<le> 0))"

definition separates :: "(string \<Rightarrow> string \<Rightarrow> int) \<Rightarrow> string list \<Rightarrow> bool" where
  "separates cmp keys \<longleftrightarrow>
     (\<forall>a\<in>set keys. \<forall>b\<in>set keys. cmp a b \<le> 0 \<and> cmp b a \<le> 0 \<longrightarrow> a = b)"

text \<open>The stable sorting of entries by key with a comparator: the same entries, in an order
  that is sorted for the comparator, the entries whose keys compare as equal to a key
  being in the order they had.\<close>

definition ties :: "(string \<Rightarrow> string \<Rightarrow> int) \<Rightarrow> string \<Rightarrow> (string \<times> 'v) list \<Rightarrow> (string \<times> 'v) list" where
  "ties cmp k es = filter (\<lambda>e. cmp (fst e) k \<le> 0 \<and> cmp k (fst e) \<le> 0) es"

definition stable_sorting ::
  "(string \<Rightarrow> string \<Rightarrow> int) \<Rightarrow> (string \<times> 'v) list \<Rightarrow> (string \<times> 'v) list \<Rightarrow> bool" where
  "stable_sorting cmp es ss \<longleftrightarrow>
     mset ss = mset es
     \<and> sorted_wrt (\<lambda>a b. cmp (fst a) (fst b) \<le> 0) ss
     \<and> (\<forall>k\<in>set (map fst es). ties cmp k ss = ties cmp k es)"

text \<open>The soft hyphen (U+00AD) is ignored by the root collation: \<open>localeCompare\<close> orders
  strings of ASCII letters and soft hyphens as it orders them without their soft
  hyphens, so two keys that differ by a soft hyphen compare as equal.\<close>

definition soft_hyphen :: char where
  "soft_hyphen = CHR 0xAD"

definition collation_compare :: "string \<Rightarrow> string \<Rightarrow> int" where
  "collation_compare a b =
     letters_compare (filter (\<lambda>c. c \<noteq> soft_hyphen) a) (filter (\<lambda>c. c \<noteq> soft_hyphen) b)"

definition collation_platform :: platform where
  "collation_platform = sample_platform\<lparr>localeCompare := collation_compare\<rparr>"

text \<open>Parameters with the keys \<open>k\<close> and \<open>k\<close> followed by a soft hyphen.\<close>

definition tied_params :: "(string \<times> json option) list" where
  "tied_params = [(''k'', Some (JNum 1)), (''k'' @ [soft_hyphen], Some (JNum 2))]"

text \<open>Parameters to evaluate the signature on: one value is \<open>undefined\<close>.\<close>

definition sample_params :: "(string \<times> json option) list" where
  "sample_params = [(''fileId'', Some (JNum 123)), (''dt'', None), (''Timestamp'', Some (JStr ''17'')),
                    (''AppKey'', Some (JStr ''600100422''))]"

chapter \<open>The share resolver (src/backend/tianyi\_share\_resolver.js)\<close>

section \<open>Object graphs\<close>

text \<open>The deep search walks objects by reference and guards against cycles with a set of
  visited objects, so its input is a graph: a heap of arrays and objects, addressed by
  their index, and values that are primitives or references into the heap. A reference
  beyond the heap cannot arise in JavaScript; the model passes it over.\<close>

datatype val = VUndefined | VNull | VBool bool | VNum int | VStr string | VRef nat

datatype node = ArrNode "val list" | ObjNode "(string \<times> val) list"

type_synonym heap = "node list"

definition lookup :: "heap \<Rightarrow> nat \<Rightarrow> node option" where
  "lookup h a = (if a < length h then Some (h ! a) else None)"

text \<open>\<open>v && typeof v === "object"\<close>.\<close>

fun is_ref :: "val \<Rightarrow> bool" where
  "is_ref (VRef a) = True"
| "is_ref _ = False"

fun val_truthy :: "val \<Rightarrow> bool" where
  "val_truthy VUndefined = False"
| "val_truthy VNull = False"
| "val_truthy (VBool b) = b"
| "val_truthy (VNum n) = (n \<noteq> 0)"
| "val_truthy (VStr s) = (s \<noteq> [])"
| "val_truthy (VRef a) = True"

text \<open>\<open>String(v)\<close>; the string of an array or an object is the platform's, given as the
  function \<open>objStr\<close> of its address.\<close>

fun val_String :: "(nat \<Rightarrow> string) \<Rightarrow> val \<Rightarrow> string" where
  "val_String objStr VUndefined = ''undefined''"
| "val_String objStr VNull = ''null''"
| "val_String objStr (VBool b) = (if b then ''true'' else ''false'')"
| "val_String objStr (VNum n) = show_int n"
| "val_String objStr (VStr s) = s"
| "val_String objStr (VRef a) = objStr a"

text \<open>\<open>toLowerCase\<close> on the code units below 256: the letters \<open>A\<close> to \<open>Z\<close> and the
  accented capitals 192 to 222, without the multiplication sign 215.\<close>

definition js_lower_char :: "char \<Rightarrow> char" where
  "js_lower_char c =
     (let n = (of_char c :: nat)
      in if (65 \<le> n \<and> n \<le> 90) \<or> (192 \<le> n \<and> n \<le> 222 \<and> n \<noteq> 215) then char_of (n + 32) else c)"

definition toLowerCase :: "string \<Rightarrow> string" where
  "toLowerCase s = map js_lower_char s"

section \<open>getDeepString and getDeepArray (lines 48-107)\<close>

text \<open>The two functions are the same loop around two different tests of an entry: the test
  is the parameter \<open>m\<close>, which gives the value to return for an entry that matches. The
  stack is a list with its top first.

  The \<open>for\<close> loop over the entries of an object: the value returned by the first entry
  that matches, or the stack with the object-valued entries pushed.\<close>

fun scan_entries ::
  "(string \<Rightarrow> val \<Rightarrow> 'r option) \<Rightarrow> (string \<times> val) list \<Rightarrow> val list \<Rightarrow> 'r + val list" where
  "scan_entries m [] stack = Inr stack"
| "scan_entries m ((rawKey, rawValue) # entries) stack =
     (case m rawKey rawValue of
        Some r \<Rightarrow> Inl r
      | None \<Rightarrow> scan_entries m entries (if is_ref rawValue then rawValue # stack else stack))"

text \<open>The \<open>for\<close> loop over the items of an array pushes the items that are objects.\<close>

definition push_items :: "val list \<Rightarrow> val list \<Rightarrow> val list" where
  "push_items items stack = rev (filter is_ref items) @ stack"

text \<open>The \<open>while (stack.length > 0)\<close> loop. \<open>None\<close> is the loop ending with no match.\<close>

function deep_search ::
  "(string \<Rightarrow> val \<Rightarrow> 'r option) \<Rightarrow> heap \<Rightarrow> val list \<Rightarrow> nat list \<Rightarrow> 'r option" where
  "deep_search m h [] visited = None"
| "deep_search m h (current # stack) visited =
     (case current of
        VRef a \<Rightarrow>
          if a \<in> set visited then deep_search m h stack visited
          else
            (case lookup h a of
               None \<Rightarrow> deep_search m h stack visited
             | Some (ArrNode items) \<Rightarrow> deep_search m h (push_items items stack) (a # visited)
             | Some (ObjNode entries) \<Rightarrow>
                 (case scan_entries m entries stack of
                    Inl r \<Rightarrow> Some r
                  | Inr stack' \<Rightarrow> deep_search m h stack' (a # visited)))
      | _ \<Rightarrow> deep_search m h stack visited)"
  by pat_completeness auto

text \<open>The loop terminates on every graph: each turn either marks an object of the heap
  that was not marked, or leaves the marks and shortens the stack.\<close>

definition unvisited :: "heap \<Rightarrow> nat list \<Rightarrow> nat" where
  "unvisited h visited = card ({a. a < length h} - set visited)"

lemma unvisited_less:
  "a < length h \<Longrightarrow> a \<notin> set visited \<Longrightarrow> unvisited h (a # visited) < unvisited h visited"
proof -
  assume a: "a < length h" "a \<notin> set visited"
  have "{a. a < length h} - set (a # visited) \<subset> {a. a < length h} - set visited"
    using a by auto
  then show ?thesis unfolding unvisited_def by (intro psubset_card_mono) auto
qed

termination deep_search
proof (relation "measures [\<lambda>(m, h, stack, visited). unvisited h visited,
                           \<lambda>(m, h, stack, visited). length stack]")
qed (auto simp: lookup_def unvisited_less split: if_splits)

declare deep_search.simps [simp del]

text \<open>The test of \<open>getDeepString\<close>: the key, lower-cased, is wanted and the trimmed string
  of the value is not empty. The test of \<open>getDeepArray\<close>: the key is wanted and the value
  is an array.\<close>

definition wanted_of :: "string list \<Rightarrow> string list" where
  "wanted_of keys = map toLowerCase keys"

definition string_match ::
  "(nat \<Rightarrow> string) \<Rightarrow> string list \<Rightarrow> string \<Rightarrow> val \<Rightarrow> string option" where
  "string_match objStr wanted rawKey rawValue =
     (if toLowerCase rawKey \<in> set wanted then
        (let text = trim (if val_truthy rawValue then val_String objStr rawValue else [])
         in if text \<noteq> [] then Some text else None)
      else None)"

definition is_array :: "heap \<Rightarrow> val \<Rightarrow> bool" where
  "is_array h v =
     (case v of VRef a \<Rightarrow> (case lookup h a of Some (ArrNode items) \<Rightarrow> True | _ \<Rightarrow> False)
      | _ \<Rightarrow> False)"

definition array_match :: "heap \<Rightarrow> string list \<Rightarrow> string \<Rightarrow> val \<Rightarrow> val option" where
  "array_match h wanted rawKey rawValue =
     (if toLowerCase rawKey \<in> set wanted \<and> is_array h rawValue then Some rawValue else None)"

definition getDeepString :: "(nat \<Rightarrow> string) \<Rightarrow> heap \<Rightarrow> val \<Rightarrow> string list \<Rightarrow> string" where
  "getDeepString objStr h payload keys =
     (if \<not> is_ref payload then []
      else case deep_search (string_match objStr (wanted_of keys)) h [payload] [] of
             None \<Rightarrow> []
           | Some text \<Rightarrow> text)"

text \<open>\<open>getDeepArray\<close> returns the array found, or a new empty array: \<open>None\<close>.\<close>

definition getDeepArray :: "heap \<Rightarrow> val \<Rightarrow> string list \<Rightarrow> val option" where
  "getDeepArray h payload keys =
     (if \<not> is_ref payload then None
      else deep_search (array_match h (wanted_of keys)) h [payload] [])"

section \<open>The traversal order of the deep search\<close>

text \<open>The objects in the order in which the loop takes them from the stack and marks
  them, when no entry matches: the traversal order.\<close>

definition node_values :: "node \<Rightarrow> val list" where
  "node_values n = (case n of ArrNode items \<Rightarrow> items | ObjNode entries \<Rightarrow> map snd entries)"

function visit_order :: "heap \<Rightarrow> val list \<Rightarrow> nat list \<Rightarrow> nat list" where
  "visit_order h [] visited = []"
| "visit_order h (current # stack) visited =
     (case current of
        VRef a \<Rightarrow>
          if a \<in> set visited then visit_order h stack visited
          else
            (case lookup h a of
               None \<Rightarrow> visit_order h stack visited
             | Some n \<Rightarrow> a # visit_order h (push_items (node_values n) stack) (a # visited))
      | _ \<Rightarrow> visit_order h stack visited)"
  by pat_completeness auto
termination
proof (relation "measures [\<lambda>(h, stack, visited). unvisited h visited,
                           \<lambda>(h, stack, visited). length stack]")
qed (auto simp: lookup_def unvisited_less split: if_splits)

declare visit_order.simps [simp del]

definition entries_of :: "heap \<Rightarrow> nat \<Rightarrow> (string \<times> val) list" where
  "entries_of h a = (case lookup h a of Some (ObjNode entries) \<Rightarrow> entries | _ \<Rightarrow> [])"

fun first_match :: "(string \<Rightarrow> val \<Rightarrow> 'r option) \<Rightarrow> (string \<times> val) list \<Rightarrow> 'r option" where
  "first_match m [] = None"
| "first_match m ((k, v) # es) = (case m k v of Some r \<Rightarrow> Some r | None \<Rightarrow> first_match m es)"

text \<open>The references from one object of the heap to another, and the objects that can be
  reached from an object.\<close>

definition edges :: "heap \<Rightarrow> (nat \<times> nat) set" where
  "edges h = {(a, b). a < length h \<and> b < length h \<and> VRef b \<in> set (node_values (h ! a))}"

definition reachable :: "heap \<Rightarrow> nat \<Rightarrow> nat set" where
  "reachable h a = {b. a < length h \<and> (a, b) \<in> (edges h)\<^sup>*}"

text \<open>For the proof that the traversal reaches every object: the objects a stack refers
  to, the references between objects that are not marked, and the objects reached from a
  set of objects through objects that are not marked.\<close>

definition refs_of :: "val list \<Rightarrow> nat set" where
  "refs_of stack = {a. VRef a \<in> set stack}"

definition edges_avoiding :: "heap \<Rightarrow> nat set \<Rightarrow> (nat \<times> nat) set" where
  "edges_avoiding h V = {(x, y). (x, y) \<in> edges h \<and> x \<notin> V \<and> y \<notin> V}"

definition reach_from :: "heap \<Rightarrow> nat set \<Rightarrow> nat set \<Rightarrow> nat set" where
  "reach_from h S V = {b. \<exists>s\<in>S. s \<notin> V \<and> s < length h \<and> (s, b) \<in> (edges_avoiding h V)\<^sup>*}"

text \<open>A graph with cycles: object 0 refers to itself, the array 1 and the objects 2 and 3
  refer back. The platform's string of an object is \<open>[object Object]\<close>.\<close>

definition cyclic_heap :: heap where
  "cyclic_heap =
     [ObjNode [(''self'', VRef 0), (''first'', VRef 3), (''list'', VRef 1), (''ShareID'', VStr '' '')],
      ArrNode [VRef 0, VNum 7, VRef 2],
      ObjNode [(''parent'', VRef 1), (''shareId'', VStr '' abc ''), (''fileList'', VRef 1)],
      ObjNode [(''shareid'', VStr ''early''), (''root'', VRef 0)]]"

definition plain_objStr :: "nat \<Rightarrow> string" where
  "plain_objStr a = ''[object Object]''"

section \<open>Values of a parsed body in the heap\<close>

text \<open>\<open>JSON.parse\<close> builds the objects of a body in the heap. \<open>alloc\<close> builds the graph
  of a JSON tree on top of a heap and gives the value that stands for the tree.\<close>

fun alloc :: "json \<Rightarrow> heap \<Rightarrow> val \<times> heap"
  and alloc_list :: "json list \<Rightarrow> heap \<Rightarrow> val list \<times> heap"
  and alloc_entries :: "(string \<times> json) list \<Rightarrow> heap \<Rightarrow> (string \<times> val) list \<times> heap" where
  "alloc JNull h = (VNull, h)"
| "alloc (JBool b) h = (VBool b, h)"
| "alloc (JNum n) h = (VNum n, h)"
| "alloc (JStr s) h = (VStr s, h)"
| "alloc (JArr xs) h = (case alloc_list xs h of (vs, h') \<Rightarrow> (VRef (length h'), h' @ [ArrNode vs]))"
| "alloc (JObj es) h =
     (case alloc_entries es h of (evs, h') \<Rightarrow> (VRef (length h'), h' @ [ObjNode evs]))"
| "alloc_list [] h = ([], h)"
| "alloc_list (x # xs) h =
     (case alloc x h of (v, h1) \<Rightarrow> case alloc_list xs h1 of (vs, h2) \<Rightarrow> (v # vs, h2))"
| "alloc_entries [] h = ([], h)"
| "alloc_entries ((k, x) # es) h =
     (case alloc x h of (v, h1) \<Rightarrow> case alloc_entries es h1 of (evs, h2) \<Rightarrow> ((k, v) # evs, h2))"

text \<open>\<open>v.key\<close> for a value of the heap: \<open>undefined\<close> unless \<open>v\<close> is an object with that
  key (the index and \<open>length\<close> properties of arrays are not read by the resolver).\<close>

definition hprop :: "heap \<Rightarrow> val \<Rightarrow> string \<Rightarrow> val" where
  "hprop h v k =
     (case v of
        VRef a \<Rightarrow>
          (case lookup h a of
             Some (ObjNode entries) \<Rightarrow> (case map_of entries k of Some w \<Rightarrow> w | None \<Rightarrow> VUndefined)
           | _ \<Rightarrow> VUndefined)
      | _ \<Rightarrow> VUndefined)"

text \<open>\<open>a || b\<close>, \<open>a ?? b\<close> and \<open>String(v || "")\<close> on values of the heap.\<close>

definition val_or :: "val \<Rightarrow> val \<Rightarrow> val" where
  "val_or a b = (if val_truthy a then a else b)"

definition val_nullish :: "val \<Rightarrow> val \<Rightarrow> val" where
  "val_nullish a b = (if a = VUndefined \<or> a = VNull then b else a)"

definition val_str_or_empty :: "(nat \<Rightarrow> string) \<Rightarrow> val \<Rightarrow> string" where
  "val_str_or_empty objStr v = (if val_truthy v then val_String objStr v else [])"

text \<open>\<open>Object.keys\<close>: the keys of an object, the indices of an array.\<close>

definition keys_of :: "heap \<Rightarrow> val \<Rightarrow> string list" where
  "keys_of h v =
     (case v of
        VRef a \<Rightarrow>
          (case lookup h a of
             Some (ObjNode entries) \<Rightarrow> map fst entries
           | Some (ArrNode items) \<Rightarrow> map show_nat [0..<length items]
           | None \<Rightarrow> [])
      | _ \<Rightarrow> [])"

section \<open>The share resolver's run (lines 109-364)\<close>

text \<open>What the resolver takes from the platform: the URL parser (\<open>None\<close> when \<open>new URL\<close>
  throws), with the \<open>pwd\<close> parameter of the query (\<open>None\<close> when there is none); the
  function \<open>extractShareIdFromText\<close>, three regular expressions that are not modelled;
  \<open>Number.parseInt(s, 10)\<close>, \<open>None\<close> for \<open>NaN\<close>; the string of an object; and
  \<open>Date.now()\<close> as text.\<close>

record parsed_url =
  url_hostname :: string
  url_pathname :: string
  url_pwd :: "string option"

record resolver_env =
  env_parseUrl :: "string \<Rightarrow> parsed_url option"
  env_extractShareId :: "string \<Rightarrow> string"
  env_parseInt :: "string \<Rightarrow> int option"
  env_objStr :: "nat \<Rightarrow> string"
  env_now :: string

text \<open>\<open>asInt(value, fallback)\<close> and \<open>toFolderFlag(value)\<close> (lines 109-118).\<close>

definition asInt :: "resolver_env \<Rightarrow> val \<Rightarrow> int \<Rightarrow> int" where
  "asInt env v fallback =
     (case env_parseInt env (val_String (env_objStr env) (val_nullish v (VStr []))) of
        Some n \<Rightarrow> n
      | None \<Rightarrow> fallback)"

definition toFolderFlag :: "resolver_env \<Rightarrow> val \<Rightarrow> bool" where
  "toFolderFlag env v =
     (let text = trim (toLowerCase (val_String (env_objStr env) (val_nullish v (VStr []))))
      in text = ''1'' \<or> text = ''true'')"

text \<open>\<open>requestText\<close> (lines 146-164): it does not look at the status.\<close>

definition requestText ::
  "net \<Rightarrow> request list \<Rightarrow> string \<Rightarrow> kv \<Rightarrow> (error + response) \<times> request list" where
  "requestText net log url extraHeaders =
     (case fetch net log (ShareGet url extraHeaders) of
        (None, log') \<Rightarrow> (Inl FetchRejected, log')
      | (Some r, log') \<Rightarrow> (Inr r, log'))"

text \<open>\<open>resp.payload && typeof resp.payload === "object" ? resp.payload : {}\<close>, built in a
  heap of its own.\<close>

definition payload_object :: "response \<Rightarrow> val \<times> heap" where
  "payload_object r =
     (case resp_json r of
        Some v \<Rightarrow> if is_object v then alloc v [] else alloc (JObj []) []
      | None \<Rightarrow> alloc (JObj []) [])"

record share_file =
  file_id :: string
  file_name :: string
  file_size :: int
  is_folder :: bool

text \<open>\<open>mapFilesFromPayload\<close> (lines 166-183).\<close>

fun map_items :: "resolver_env \<Rightarrow> heap \<Rightarrow> val list \<Rightarrow> share_file list" where
  "map_items env h [] = []"
| "map_items env h (item # items) =
     (if \<not> is_ref item then map_items env h items
      else
        let fileId = trim (val_str_or_empty (env_objStr env)
                       (val_or (hprop h item ''id'') (val_or (hprop h item ''fileId'') (VStr []))))
        in if fileId = [] then map_items env h items
           else
             \<lparr>file_id = fileId,
              file_name = val_str_or_empty (env_objStr env)
                (val_or (hprop h item ''name'')
                   (val_or (hprop h item ''fileName'') (VStr (''file-'' @ fileId)))),
              file_size = max 0 (asInt env (val_nullish (hprop h item ''size'')
                                             (hprop h item ''fileSize'')) 0),
              is_folder = toFolderFlag env (hprop h item ''isFolder'')\<rparr>
             # map_items env h items)"

definition mapFilesFromPayload :: "resolver_env \<Rightarrow> heap \<Rightarrow> val \<Rightarrow> share_file list" where
  "mapFilesFromPayload env h payload =
     (case getDeepArray h payload [''fileList'', ''files'', ''rows'', ''list''] of
        Some (VRef a) \<Rightarrow>
          (case lookup h a of Some (ArrNode items) \<Rightarrow> map_items env h items | _ \<Rightarrow> [])
      | _ \<Rightarrow> [])"

text \<open>An entry of the attempt list (\<open>appendAttempt\<close>, lines 185-197), without the body type
  and the body preview, which are diagnostics on the text.\<close>

record share_attempt =
  sa_step :: string
  sa_endpoint :: string
  sa_ok :: bool
  sa_status :: nat
  sa_share_id :: string

text \<open>What \<open>run\<close> returns: the object with \<open>ok: false\<close>, \<open>error\<close> and \<open>diagnostics\<close>, or
  the object with \<open>ok: true\<close>, \<open>data\<close> and \<open>diagnostics\<close>.\<close>

record share_diagnostics =
  dg_share_code :: string
  dg_share_url :: string
  dg_attempts :: "share_attempt list"
  dg_check_payload_keys :: "string list"
  dg_info_payload_keys :: "string list"

record share_data =
  sd_share_code :: string
  sd_share_id :: string
  sd_pwd :: string
  sd_files :: "share_file list"

datatype share_result =
    ShareFailure string share_diagnostics
  | ShareSuccess share_data "share_attempt list"

text \<open>The two checks of the parsed URL (lines 212-222).\<close>

definition host_ok :: "parsed_url \<Rightarrow> bool" where
  "host_ok u \<longleftrightarrow>
     toLowerCase (url_hostname u) = ''cloud.189.cn''
     \<or> toLowerCase (url_hostname u) = ''www.cloud.189.cn''"

definition pathParts_of :: "parsed_url \<Rightarrow> string list" where
  "pathParts_of u = filter (\<lambda>item. trim item \<noteq> []) (split_on CHR ''/'' (url_pathname u))"

definition path_ok :: "parsed_url \<Rightarrow> bool" where
  "path_ok u \<longleftrightarrow> \<not> (length (pathParts_of u) < 2 \<or> hd (pathParts_of u) \<noteq> ''t'')"

text \<open>The requests of \<open>run\<close>.\<close>

definition checkUrl_of :: "platform \<Rightarrow> string \<Rightarrow> string \<Rightarrow> string \<Rightarrow> string" where
  "checkUrl_of P noCache shareCode pwd =
     ''https://cloud.189.cn/api/open/share/checkAccessCode.action''
     @ ''?noCache='' @ encodeURIComponent P noCache
     @ ''&shareCode='' @ encodeURIComponent P shareCode
     @ ''&accessCode='' @ encodeURIComponent P pwd"

definition infoUrl_of :: "platform \<Rightarrow> string \<Rightarrow> string \<Rightarrow> string" where
  "infoUrl_of P noCache shareCode =
     ''https://cloud.189.cn/api/open/share/getShareInfoByCodeV2.action''
     @ ''?noCache='' @ encodeURIComponent P noCache
     @ ''&shareCode='' @ encodeURIComponent P shareCode"

definition listUrl_of ::
  "platform \<Rightarrow> string \<Rightarrow> bool \<Rightarrow> string \<Rightarrow> string \<Rightarrow> string \<Rightarrow> string" where
  "listUrl_of P noCache isFolder shareId rootFileId pwd =
     (if isFolder then
        ''https://cloud.189.cn/api/open/share/listShareDir.action''
        @ ''?noCache='' @ encodeURIComponent P noCache
        @ ''&pageNum=1&pageSize=60''
        @ ''&fileId='' @ encodeURIComponent P shareId
        @ ''&shareDirFileId='' @ encodeURIComponent P shareId
        @ ''&isFolder=true''
        @ ''&shareId='' @ encodeURIComponent P shareId
        @ ''&shareMode=1&iconOption=5''
        @ ''&orderBy=lastOpTime&descending=true''
        @ ''&accessCode='' @ encodeURIComponent P pwd
      else
        ''https://cloud.189.cn/api/open/share/listShareDir.action''
        @ ''?noCache='' @ encodeURIComponent P noCache
        @ ''&fileId='' @ encodeURIComponent P (if rootFileId \<noteq> [] then rootFileId else shareId)
        @ ''&shareMode=1&isFolder=false''
        @ ''&shareId='' @ encodeURIComponent P shareId
        @ ''&iconOption=5&pageNum=1&pageSize=10''
        @ ''&accessCode='' @ encodeURIComponent P pwd)"

text \<open>The part of \<open>run\<close> after the validation (lines 224-363): the optional check of the
  access code, the share info, the fallbacks for the share id, and the listing.\<close>

definition resolve_share ::
  "platform \<Rightarrow> resolver_env \<Rightarrow> net \<Rightarrow> request list \<Rightarrow> string \<Rightarrow> string \<Rightarrow> string
     \<Rightarrow> (error + share_result) \<times> request list" where
  "resolve_share P env net log shareUrl shareCode pwd =
     (let noCache = env_now env;
          skipped = \<lparr>sa_step = ''check_access_code_primary_js'',
                     sa_endpoint = ''/api/open/share/checkAccessCode.action'',
                     sa_ok = False, sa_status = 0, sa_share_id = []\<rparr>
      in case (if pwd \<noteq> [] then
                 (case requestText net log (checkUrl_of P noCache shareCode pwd) [] of
                    (Inl e, log1) \<Rightarrow> (Inl e, log1)
                  | (Inr checkResp, log1) \<Rightarrow>
                      (case payload_object checkResp of
                         (checkObj, h) \<Rightarrow>
                           let shareId = getDeepString (env_objStr env) h checkObj
                                           [''shareId'', ''shareID'', ''shareid'']
                           in (Inr (shareId, keys_of h checkObj,
                                    [skipped\<lparr>sa_ok := shareId \<noteq> [],
                                             sa_status := resp_status checkResp,
                                             sa_share_id := shareId\<rparr>]), log1)))
               else (Inr ([], [], [skipped]), log)) of
           (Inl e, log1) \<Rightarrow> (Inl e, log1)
         | (Inr (shareId0, checkKeys, attempts1), log1) \<Rightarrow>
             (case requestText net log1 (infoUrl_of P noCache shareCode) [] of
                (Inl e, log2) \<Rightarrow> (Inl e, log2)
              | (Inr infoResp, log2) \<Rightarrow>
                  (case payload_object infoResp of
                     (infoObj, h) \<Rightarrow>
                       let found = getDeepString (env_objStr env) h infoObj
                                     [''shareId'', ''shareID'', ''shareid''];
                           shareId1 = (if found \<noteq> [] then found else shareId0);
                           rootFileId0 = getDeepString (env_objStr env) h infoObj
                                           [''fileId'', ''fileID'', ''fileid''];
                           isFolder = toFolderFlag env
                                        (VStr (getDeepString (env_objStr env) h infoObj [''isFolder'']));
                           attempts2 = attempts1 @
                             [\<lparr>sa_step = ''get_share_info_js'',
                               sa_endpoint = ''/api/open/share/getShareInfoByCodeV2.action'',
                               sa_ok = shareId1 \<noteq> [], sa_status = resp_status infoResp,
                               sa_share_id = shareId1\<rparr>];
                           shareId = (if shareId1 \<noteq> [] then shareId1
                                      else if env_extractShareId env (resp_text infoResp) \<noteq> []
                                      then env_extractShareId env (resp_text infoResp)
                                      else env_extractShareId env (resp_url infoResp));
                           rootFileId = (if rootFileId0 \<noteq> [] then rootFileId0 else shareId)
                       in if shareId = [] then
                            (Inr (ShareFailure ''js_share_parse_failed_no_shareid''
                                    \<lparr>dg_share_code = shareCode, dg_share_url = shareUrl,
                                     dg_attempts = attempts2, dg_check_payload_keys = checkKeys,
                                     dg_info_payload_keys = keys_of h infoObj\<rparr>), log2)
                          else
                            (case requestText net log2
                                    (listUrl_of P noCache isFolder shareId rootFileId pwd)
                                    [(''Sign-Type'', ''1'')] of
                               (Inl e, log3) \<Rightarrow> (Inl e, log3)
                             | (Inr listResp, log3) \<Rightarrow>
                                 (case payload_object listResp of
                                    (listObj, h') \<Rightarrow>
                                      let attempts3 = attempts2 @
                                            [\<lparr>sa_step = ''list_share_dir_js'',
                                              sa_endpoint = ''/api/open/share/listShareDir.action'',
                                              sa_ok = (200 \<le> resp_status listResp
                                                       \<and> resp_status listResp < 400),
                                              sa_status = resp_status listResp,
                                              sa_share_id = shareId\<rparr>];
                                          files = mapFilesFromPayload env h' listObj;
                                          name = getDeepString (env_objStr env) h infoObj
                                                   [''name'', ''fileName''];
                                          files' =
                                            (if files = [] \<and> rootFileId \<noteq> [] then
                                               [\<lparr>file_id = rootFileId,
                                                 file_name = (if name \<noteq> [] then name
                                                              else ''single-file''),
                                                 file_size = max 0 (asInt env
                                                   (VStr (getDeepString (env_objStr env) h infoObj
                                                            [''size'', ''fileSize''])) 0),
                                                 is_folder = False\<rparr>]
                                             else files)
                                      in (Inr (ShareSuccess
                                                 \<lparr>sd_share_code = shareCode, sd_share_id = shareId,
                                                  sd_pwd = pwd, sd_files = files'\<rparr> attempts3),
                                          log3))))))"

text \<open>\<open>run\<close> (lines 199-364). Reading a property of \<open>null\<close> throws a \<open>TypeError\<close>.\<close>

definition run ::
  "platform \<Rightarrow> resolver_env \<Rightarrow> net \<Rightarrow> request list \<Rightarrow> json
     \<Rightarrow> (error + share_result) \<times> request list" where
  "run P env net log input =
     (if input = JNull then (Inl (MissingField ''TypeError''), log)
      else
        let shareUrl = trim (str_or_empty (get_prop (Some input) ''share_url''));
            cookie = trim (str_or_empty (get_prop (Some input) ''cookie''))
        in if shareUrl = [] then (Inl ShareUrlEmpty, log)
           else if cookie = [] then (Inl CookieEmpty, log)
           else
             case env_parseUrl env shareUrl of
               None \<Rightarrow> (Inl ShareUrlInvalid, log)
             | Some parsedUrl \<Rightarrow>
                 if \<not> host_ok parsedUrl then (Inl ShareHostInvalid, log)
                 else if \<not> path_ok parsedUrl then (Inl SharePathInvalid, log)
                 else
                   resolve_share P env net log shareUrl
                     (trim (pathParts_of parsedUrl ! 1))
                     (trim (case url_pwd parsedUrl of None \<Rightarrow> [] | Some p \<Rightarrow> p)))"

section \<open>The share resolver's main (lines 366-397)\<close>

text \<open>What the process reads from standard input: nothing, text that \<open>JSON.parse\<close>
  refuses, or a JSON value. Standard input is taken to be readable.\<close>

datatype stdin_input = EmptyInput | Unparseable | Parsed json

text \<open>The text of the \<open>error\<close> field: a literal of the script, or the message of the
  \<open>Error\<close> that was thrown.\<close>

datatype error_text = Literal string | MessageOf error

text \<open>A JSON object written to standard output, by the fields the claims are about: \<open>ok\<close>,
  the \<open>error\<close> text if there is one, and whether \<open>data\<close> and \<open>diagnostics\<close> are there.\<close>

record emitted =
  em_ok :: bool
  em_error :: "error_text option"
  em_has_data :: bool
  em_has_diagnostics :: bool

text \<open>\<open>JSON.stringify(result)\<close> for what \<open>run\<close> returns.\<close>

definition emit_result :: "share_result \<Rightarrow> emitted" where
  "emit_result r =
     (case r of
        ShareFailure err diagnostics \<Rightarrow>
          \<lparr>em_ok = False, em_error = Some (Literal err), em_has_data = False,
           em_has_diagnostics = True\<rparr>
      | ShareSuccess d attempts \<Rightarrow>
          \<lparr>em_ok = True, em_error = None, em_has_data = True, em_has_diagnostics = True\<rparr>)"

text \<open>\<open>main\<close>: what is written to standard output, the exit status and the requests
  issued. The script never sets an exit status, so the process ends with status 0.\<close>

definition share_main ::
  "platform \<Rightarrow> resolver_env \<Rightarrow> net \<Rightarrow> stdin_input \<Rightarrow> emitted list \<times> nat \<times> request list" where
  "share_main P env net raw =
     (case raw of
        Unparseable \<Rightarrow>
          ([\<lparr>em_ok = False, em_error = Some (Literal ''stdin_json_invalid''),
             em_has_data = False, em_has_diagnostics = False\<rparr>], 0, [])
      | _ \<Rightarrow>
          (case run P env net [] (case raw of Parsed v \<Rightarrow> v | _ \<Rightarrow> JObj []) of
             (Inr result, log) \<Rightarrow> ([emit_result result], 0, log)
           | (Inl err, log) \<Rightarrow>
               ([\<lparr>em_ok = False, em_error = Some (MessageOf err), em_has_data = False,
                  em_has_diagnostics = False\<rparr>], 0, log)))"

section \<open>The cloud client's main (part\_000, lines 876-916)\<close>

text \<open>The three actions are parameters: each takes the payload and returns its data or
  throws. \<open>readStdinJson\<close> rejects when the input does not parse, and the empty input does
  not parse.\<close>

definition action_of :: "json \<Rightarrow> string" where
  "action_of payload =
     toLowerCase (trim (case get_prop (Some payload) ''action'' of
                          Some v \<Rightarrow> if truthy (Some v) then js_String v else ''upload''
                        | None \<Rightarrow> ''upload''))"

definition cloud_outcome ::
  "(json \<Rightarrow> error + 'd) \<Rightarrow> (json \<Rightarrow> error + 'd) \<Rightarrow> (json \<Rightarrow> error + 'd) \<Rightarrow> stdin_input
     \<Rightarrow> error + 'd" where
  "cloud_outcome runUpload runListVersions runDownloadFile raw =
     (case raw of
        Parsed input \<Rightarrow>
          (let payload = (if truthy (Some input) then input else JObj []);
               action = action_of payload
           in if action = ''upload'' then runUpload payload
              else if action = ''list_versions'' then runListVersions payload
              else if action = ''download_file'' then runDownloadFile payload
              else Inl (UnsupportedAction action))
      | _ \<Rightarrow> Inl StdinInvalid)"

text \<open>The \<open>try\<close> block writes the data, the \<open>catch\<close> block writes the failure and sets
  the exit status.\<close>

definition cloud_main ::
  "(json \<Rightarrow> error + 'd) \<Rightarrow> (json \<Rightarrow> error + 'd) \<Rightarrow> (json \<Rightarrow> error + 'd) \<Rightarrow> stdin_input
     \<Rightarrow> emitted list \<times> nat" where
  "cloud_main runUpload runListVersions runDownloadFile raw =
     (case cloud_outcome runUpload runListVersions runDownloadFile raw of
        Inr d \<Rightarrow>
          ([\<lparr>em_ok = True, em_error = None, em_has_data = True, em_has_diagnostics = False\<rparr>], 0)
      | Inl err \<Rightarrow>
          ([\<lparr>em_ok = False, em_error = Some (MessageOf err), em_has_data = False,
             em_has_diagnostics = True\<rparr>], 1))"

text \<open>The result object as the specification words it: \<open>{ok: true, data}\<close> on success,
  \<open>{ok: false, error, diagnostics}\<close> on failure.\<close>

definition spec_shape :: "emitted \<Rightarrow> bool" where
  "spec_shape e =
     (if em_ok e then em_has_data e \<and> em_error e = None
      else em_error e \<noteq> None \<and> em_has_diagnostics e)"

section \<open>The download (part\_000, lines 731-755)\<close>

text \<open>The local files, by path. \<open>path.resolve\<close> is the parameter \<open>resolve\<close>;
  \<open>fs.mkdirSync\<close> of the parent directory is taken to succeed and does not touch a file,
  and so is every write to the file.\<close>

type_synonym files = "string \<rightharpoonup> string"








text \<open>The URL parser on two addresses, and an environment with it.\<close>

definition sample_parseUrl :: "string \<Rightarrow> parsed_url option" where
  "sample_parseUrl s =
     (if s = ''https://cloud.189.cn/t/abc/extra''
      then Some \<lparr>url_hostname = ''cloud.189.cn'', url_pathname = ''/t/abc/extra'', url_pwd = None\<rparr>
      else if s = ''https://example.com/t/abc''
      then Some \<lparr>url_hostname = ''example.com'', url_pathname = ''/t/abc'', url_pwd = None\<rparr>
      else None)"

definition sample_env :: resolver_env where
  "sample_env =
     \<lparr>env_parseUrl = sample_parseUrl, env_extractShareId = (\<lambda>text. []),
      env_parseInt = (\<lambda>s. None), env_objStr = plain_objStr, env_now = ''1700000000000''\<rparr>"

text \<open>A path matches \<open>/t/<code>\<close> when it is \<open>/t/\<close> followed by a code, which is not
  empty and has no slash.\<close>

definition spec_path_matches :: "string \<Rightarrow> bool" where
  "spec_path_matches path \<longleftrightarrow>
     take 3 path = ''/t/'' \<and> drop 3 path \<noteq> [] \<and> CHR ''/'' \<notin> set (drop 3 path)"

text \<open>Inputs of the share resolver: an address with a third path segment, an address on
  another host; and a server that answers every request with a share id and a file id.\<close>

definition extra_segment_input :: json where
  "extra_segment_input =
     JObj [(''share_url'', JStr ''https://cloud.189.cn/t/abc/extra''), (''cookie'', JStr ''c'')]"

definition other_host_input :: json where
  "other_host_input =
     JObj [(''share_url'', JStr ''https://example.com/t/abc''), (''cookie'', JStr ''c'')]"

definition share_net :: net where
  "share_net log =
     Some (json_response (JObj [(''shareId'', JStr ''77''), (''fileId'', JStr ''88'')]))"

chapter \<open>Properties\<close>

section \<open>The business result code\<close>

lemma nullish_cases: "nullish a b = (if a = None \<or> a = Some JNull then b else a)"
  by (cases "(a, b)" rule: nullish.cases) auto

lemma codeRaw_first_code:
  "first_code es = (if codeRaw (JObj es) = Some JNull then None else codeRaw (JObj es))"
  unfolding codeRaw_def first_code_def code_keys_def nullish_cases
  by simp

lemma resultCode_first_code:
  "resultCode (JObj es) = trim (case first_code es of None \<Rightarrow> [] | Some v \<Rightarrow> js_String v)"
proof (cases "codeRaw (JObj es)")
  case None
  then show ?thesis by (simp add: resultCode_def codeRaw_first_code)
next
  case (Some v)
  then show ?thesis by (cases v) (simp_all add: resultCode_def codeRaw_first_code)
qed

text \<open>
  Claim C9. For a response that is a JSON object, \<open>ensureSuccessPayload\<close> looks at the
  first of \<open>res_code\<close>, \<open>resCode\<close>, \<open>code\<close>, \<open>errorCode\<close> that is neither missing nor
  \<open>null\<close>. With no such field, or when its string trims to the empty string or is one of
  \<open>0\<close>, \<open>SUCCESS\<close>, \<open>success\<close>, the response passes; every other code raises the business
  error that carries the code. In particular a response with none of the four fields
  passes.
\<close>

theorem ensureSuccessPayload_by_result_code:
  "ensureSuccessPayload (JObj es) action =
     (case first_code es of
        None \<Rightarrow> Inr ()
      | Some v \<Rightarrow>
          if trim (js_String v) \<in> set [[], ''0'', ''SUCCESS'', ''success''] then Inr ()
          else Inl (BusinessError action (trim (js_String v))
                      (firstString (map (get_prop (Some (JObj es))) message_keys))))
   \<and> ((\<forall>k \<in> set code_keys. map_of es k = None)
        \<longrightarrow> ensureSuccessPayload (JObj es) action = Inr ())"
proof -
  have trim_Nil: "trim [] = []" by (simp add: trim_def)
  have eq: "ensureSuccessPayload (JObj es) action =
     (case first_code es of
        None \<Rightarrow> Inr ()
      | Some v \<Rightarrow>
          if trim (js_String v) \<in> set [[], ''0'', ''SUCCESS'', ''success''] then Inr ()
          else Inl (BusinessError action (trim (js_String v))
                      (firstString (map (get_prop (Some (JObj es))) message_keys))))"
  proof (cases "first_code es")
    case None
    then show ?thesis
      by (simp add: ensureSuccessPayload_def resultCode_first_code trim_Nil)
  next
    case (Some v)
    then show ?thesis
      by (simp add: ensureSuccessPayload_def resultCode_first_code message_keys_def Let_def)
  qed
  have "first_code es = None" if "\<forall>k \<in> set code_keys. map_of es k = None"
    using that by (simp add: first_code_def code_keys_def)
  with eq show ?thesis by simp
qed

text \<open>A response that carries data and no result code passes.\<close>

theorem ensureSuccessPayload_by_result_code_witness:
  "ensureSuccessPayload (JObj [(''fileListAO'', JObj [])]) ''listFiles'' = Inr ()"
proof -
  have "\<forall>k \<in> set code_keys. map_of [(''fileListAO'', JObj [])] k = None"
    by (simp add: code_keys_def)
  with ensureSuccessPayload_by_result_code [of "[(''fileListAO'', JObj [])]" "''listFiles''"]
  show ?thesis by blast
qed

section \<open>Folder names\<close>

lemma replace_separators_no_sep:
  "\<forall>c\<in>set xs. \<not> is_separator c \<Longrightarrow> replace_separators (xs @ ys) = xs @ replace_separators ys"
  by (induction xs) simp_all

lemma replace_separators_run:
  "seps \<noteq> [] \<Longrightarrow> \<forall>c\<in>set seps. is_separator c \<Longrightarrow> ys = [] \<or> \<not> is_separator (hd ys)
     \<Longrightarrow> replace_separators (seps @ ys) = CHR ''_'' # replace_separators ys"
proof -
  assume a: "seps \<noteq> []" "\<forall>c\<in>set seps. is_separator c" "ys = [] \<or> \<not> is_separator (hd ys)"
  from a(3) have "dropWhile is_separator ys = ys" by (cases ys) auto
  with a(1,2) show ?thesis by (cases seps) simp_all
qed

lemma replace_separators_Nil_iff: "replace_separators s = [] \<longleftrightarrow> s = []"
  by (cases s) simp_all

lemma all_dropWhile_iff: "(\<forall>x\<in>set (dropWhile Q s). Q x) \<longleftrightarrow> (\<forall>x\<in>set s. Q x)"
proof
  assume a: "\<forall>x\<in>set (dropWhile Q s). Q x"
  have "dropWhile Q s = []"
  proof (rule ccontr)
    assume "dropWhile Q s \<noteq> []"
    then have "\<not> Q (hd (dropWhile Q s))" "hd (dropWhile Q s) \<in> set (dropWhile Q s)"
      by (simp_all add: hd_dropWhile)
    with a show False by blast
  qed
  then show "\<forall>x\<in>set s. Q x" by (simp add: dropWhile_eq_Nil_conv)
next
  assume "\<forall>x\<in>set s. Q x"
  then show "\<forall>x\<in>set (dropWhile Q s). Q x" by (meson set_dropWhileD)
qed

lemma trim_Nil_iff: "trim s = [] \<longleftrightarrow> (\<forall>c\<in>set s. is_js_space c)"
  by (simp add: trim_def all_dropWhile_iff)

lemma normalize_Nil_iff:
  "normalizeFolderName v = [] \<longleftrightarrow> (\<forall>c\<in>set (str_or_empty v). is_js_space c)"
  by (simp add: normalizeFolderName_def replace_separators_Nil_iff trim_Nil_iff)

lemma ensure_loop_skip:
  "\<forall>p\<in>set parts. normalizeFolderName (Some p) = [] \<Longrightarrow>
     ensureFolderPath_loop P net log parent trace parts = (Inr (parent, trace), log)"
  by (induction parts) simp_all

lemma find_loop_skip:
  "\<forall>p\<in>set parts. normalizeFolderName (Some p) = [] \<Longrightarrow>
     findFolderPath_loop P net log parent trace parts = (Inr (FolderFound parent trace), log)"
  by (induction parts) simp_all

text \<open>
  Claim C10, amended. A segment is normalized by trimming white space and then replacing
  every maximal run of \<open>/\<close> and \<open>\\<close> by one \<open>_\<close>: text without separators is kept as it
  is, and a run of separators that nothing continues becomes one underscore. A string
  segment normalizes to the empty string exactly when it is empty or white space only. In
  \<open>ensureFolderPath\<close> and in \<open>findFolderPath\<close> a segment that normalizes to the empty
  string is skipped: no request, no trace entry, the parent unchanged. So a list of such
  segments only yields the root folder id, an empty trace and no request.
\<close>

theorem empty_segments_are_skipped:
  "normalizeFolderName v = replace_separators (trim (str_or_empty v))
   \<and> ((\<forall>c\<in>set xs. \<not> is_separator c)
        \<longrightarrow> replace_separators (xs @ ys) = xs @ replace_separators ys)
   \<and> (seps \<noteq> [] \<and> (\<forall>c\<in>set seps. is_separator c) \<and> (zs = [] \<or> \<not> is_separator (hd zs))
        \<longrightarrow> replace_separators (seps @ zs) = CHR ''_'' # replace_separators zs)
   \<and> (normalizeFolderName (Some (JStr s)) = [] \<longleftrightarrow> (\<forall>c\<in>set s. is_js_space c))
   \<and> (normalizeFolderName (Some rawPart) = [] \<longrightarrow>
        ensureFolderPath_loop P net log parent trace (rawPart # rest)
          = ensureFolderPath_loop P net log parent trace rest
      \<and> findFolderPath_loop P net log parent trace (rawPart # rest)
          = findFolderPath_loop P net log parent trace rest)
   \<and> ((\<forall>p\<in>set parts. normalizeFolderName (Some p) = []) \<longrightarrow>
        ensureFolderPath P net log parts = (Inr (ROOT_FOLDER_ID, []), log)
      \<and> findFolderPath P net log parts = (Inr (FolderFound ROOT_FOLDER_ID []), log))"
proof (intro conjI)
  show "normalizeFolderName v = replace_separators (trim (str_or_empty v))"
    by (simp add: normalizeFolderName_def)
  show "(\<forall>c\<in>set xs. \<not> is_separator c) \<longrightarrow> replace_separators (xs @ ys) = xs @ replace_separators ys"
    by (simp add: replace_separators_no_sep)
  show "seps \<noteq> [] \<and> (\<forall>c\<in>set seps. is_separator c) \<and> (zs = [] \<or> \<not> is_separator (hd zs))
     \<longrightarrow> replace_separators (seps @ zs) = CHR ''_'' # replace_separators zs"
    using replace_separators_run by blast
  show "normalizeFolderName (Some (JStr s)) = [] \<longleftrightarrow> (\<forall>c\<in>set s. is_js_space c)"
    by (auto simp: normalize_Nil_iff str_or_empty_def)
  show "normalizeFolderName (Some rawPart) = [] \<longrightarrow>
     ensureFolderPath_loop P net log parent trace (rawPart # rest)
       = ensureFolderPath_loop P net log parent trace rest
   \<and> findFolderPath_loop P net log parent trace (rawPart # rest)
       = findFolderPath_loop P net log parent trace rest"
    by simp
  show "(\<forall>p\<in>set parts. normalizeFolderName (Some p) = []) \<longrightarrow>
     ensureFolderPath P net log parts = (Inr (ROOT_FOLDER_ID, []), log)
   \<and> findFolderPath P net log parts = (Inr (FolderFound ROOT_FOLDER_ID []), log)"
    by (simp add: ensureFolderPath_def findFolderPath_def ensure_loop_skip find_loop_skip)
qed

text \<open>The segments \<open>""\<close> and \<open>"  "\<close> resolve to the root folder with no request, on the
  server that would refuse every request; and \<open>a//b\<close> becomes \<open>a_b\<close>.\<close>

theorem empty_segments_are_skipped_witness:
  "ensureFolderPath sample_platform (\<lambda>log. None) [] [JStr [], JStr ''  '']
     = (Inr (ROOT_FOLDER_ID, []), [])
   \<and> findFolderPath sample_platform (\<lambda>log. None) [] [JStr [], JStr ''  '']
     = (Inr (FolderFound ROOT_FOLDER_ID []), [])
   \<and> replace_separators (''a'' @ ''//'' @ ''b'') = ''a_b''"
proof -
  note T = empty_segments_are_skipped
  have blank: "\<forall>c\<in>set ''  ''. is_js_space c" "\<forall>c\<in>set []. is_js_space c"
    by (simp_all add: is_js_space_def)
  have "\<forall>p\<in>set [JStr [], JStr ''  '']. normalizeFolderName (Some p) = []"
  proof -
    have n: "normalizeFolderName (Some (JStr s)) = [] \<longleftrightarrow> (\<forall>c\<in>set s. is_js_space c)" for s
      using T [where s = s] by blast
    from blank show ?thesis by (simp add: n)
  qed
  with T [where parts = "[JStr [], JStr ''  '']" and P = sample_platform
            and net = "\<lambda>log. None" and log = "[]"]
  have paths: "ensureFolderPath sample_platform (\<lambda>log. None) [] [JStr [], JStr ''  '']
     = (Inr (ROOT_FOLDER_ID, []), [])
   \<and> findFolderPath sample_platform (\<lambda>log. None) [] [JStr [], JStr ''  '']
     = (Inr (FolderFound ROOT_FOLDER_ID []), [])"
    by blast
  have a: "\<forall>c\<in>set ''a''. \<not> is_separator c" and b: "\<forall>c\<in>set ''b''. \<not> is_separator c"
    and r: "''//'' \<noteq> [] \<and> (\<forall>c\<in>set ''//''. is_separator c)
              \<and> (''b'' = [] \<or> \<not> is_separator (hd ''b''))"
    by (simp_all add: is_separator_def)
  have "replace_separators (''a'' @ ''//'' @ ''b'') = ''a'' @ replace_separators (''//'' @ ''b'')"
    using T [where xs = "''a''" and ys = "''//'' @ ''b''"] a by blast
  also have "replace_separators (''//'' @ ''b'') = CHR ''_'' # replace_separators ''b''"
    using T [where seps = "''//''" and zs = "''b''"] r by blast
  also have "replace_separators ''b'' = ''b''"
    using T [where xs = "''b''" and ys = "[]"] b by simp
  finally have "replace_separators (''a'' @ ''//'' @ ''b'') = ''a_b''" by simp
  with paths show ?thesis by blast
qed

text \<open>The claim as stated fails on a segment made of separators only: \<open>"/"\<close> normalizes to
  \<open>"_"\<close>, so \<open>findFolderPath\<close> lists the root folder looking for a folder of that name.\<close>

theorem separator_segment_is_listed:
  "findFolderPath sample_platform empty_net [] [JStr ''/'']
     = (Inr (FolderNotFound ''_'' [FindFolder ''-11'' ''_'' False]), [first_listing])"
  by code_simp

section \<open>Creating a missing folder\<close>

lemma snd_requestOpenApi:
  "snd (requestOpenApi net log m ep q f)
     = log @ [OpenApi (toUpperCase m) ep q (if toUpperCase m = ''GET'' then [] else f)]"
  by (simp add: requestOpenApi_def fetch_def split: option.splits)

lemma snd_try_candidate: "snd (try_candidate net log item) = log @ [cand_request item]"
proof -
  obtain r l where eq:
    "requestOpenApi net log (cand_method item) (cand_endpoint item) [] (cand_form item) = (r, l)"
    by (cases "requestOpenApi net log (cand_method item) (cand_endpoint item) [] (cand_form item)")
  with snd_requestOpenApi [of net log "cand_method item" "cand_endpoint item" "[]" "cand_form item"]
  have "l = log @ [cand_request item]" by (simp add: cand_request_def)
  with eq show ?thesis
    by (simp add: try_candidate_def split: sum.splits)
qed

lemma att_endpoint_try: "att_endpoint (fst (try_candidate net log item)) = cand_endpoint item"
  by (simp add: try_candidate_def split: prod.splits sum.splits)

lemma att_method_try: "att_method (fst (try_candidate net log item)) = cand_method item"
  by (simp add: try_candidate_def split: prod.splits sum.splits)

text \<open>The loop over the candidates never stops early: it issues one request for each
  candidate, in order, and the attempt it records for a candidate is the outcome of that
  candidate's own request.\<close>

lemma candidates_loop_eq:
  "candidates_loop net log items acc =
     (acc @ map (\<lambda>i. fst (try_candidate net (log @ map cand_request (take i items)) (items ! i)))
              [0..<length items],
      log @ map cand_request items)"
proof (induction items arbitrary: log acc)
  case Nil
  then show ?case by simp
next
  case (Cons item items)
  obtain a l where t: "try_candidate net log item = (a, l)" by (cases "try_candidate net log item")
  with snd_try_candidate [of net log item] have l: "l = log @ [cand_request item]" by simp
  have "map (\<lambda>i. fst (try_candidate net (log @ map cand_request (take i (item # items)))
                       ((item # items) ! i)))
            [0..<length (item # items)]
        = a # map (\<lambda>i. fst (try_candidate net (l @ map cand_request (take i items)) (items ! i)))
            [0..<length items]"
  proof -
    have "[0..<length (item # items)] = 0 # map Suc [0..<length items]"
      by (simp add: upt_conv_Cons map_Suc_upt del: upt_Suc)
    then show ?thesis using t l by (simp add: comp_def del: upt_Suc)
  qed
  with Cons.IH [of l "acc @ [a]"] t l show ?case by simp
qed

lemma createFolderCandidates_eq:
  "createFolderCandidates P net log parent name =
     (map (\<lambda>i. fst (try_candidate net
                       (log @ map cand_request (take i (candidates P parent name)))
                       (candidates P parent name ! i)))
          [0..<length (candidates P parent name)],
      log @ map cand_request (candidates P parent name))"
  by (simp add: createFolderCandidates_def candidates_loop_eq del: upt_Suc)

lemma length_candidates: "length (candidates P parent name) = 5"
  by (simp add: candidates_def)

text \<open>A listed folder has an id: \<open>listFolders\<close> keeps an item only when its id and its
  name are not empty.\<close>

lemma page_folders_ids: "f \<in> set (page_folders items) \<Longrightarrow> folder_id f \<noteq> []"
  by (induction items) (auto simp: Let_def split: if_splits)

lemma listFolders_loop_ids:
  "listFolders_loop P net log parent pageNum acc = (Inr fs, log') \<Longrightarrow>
   \<forall>f\<in>set acc. folder_id f \<noteq> [] \<Longrightarrow> \<forall>f\<in>set fs. folder_id f \<noteq> []"
proof (induction P net log parent pageNum acc rule: listFolders_loop.induct)
  case (1 P net log parent pageNum acc)
  show ?case
  proof (cases "pageNum \<le> 20")
    case False
    with "1.prems" show ?thesis by (simp add: listFolders_loop.simps)
  next
    case True
    note le = this
    obtain r l where req: "requestOpenApi net log ''GET'' ''/api/open/file/listFiles.action''
               (listFiles_query pageNum parent) [] = (r, l)"
      by (cases "requestOpenApi net log ''GET'' ''/api/open/file/listFiles.action''
               (listFiles_query pageNum parent) []")
    show ?thesis
    proof (cases r)
      case (Inl e)
      with "1.prems"(1) le req show ?thesis
        by (subst (asm) listFolders_loop.simps) simp
    next
      case (Inr payload)
      note r = this
      show ?thesis
      proof (cases "ensureSuccessPayload payload ''listFiles''")
        case (Inl e)
        with "1.prems"(1) le req r show ?thesis
          by (subst (asm) listFolders_loop.simps) simp
      next
        case (Inr u)
        define acc' where "acc' = acc @ page_folders (folderList_of payload)"
        have acc': "\<forall>f\<in>set acc'. folder_id f \<noteq> []"
          using "1.prems"(2) page_folders_ids by (auto simp: acc'_def)
        show ?thesis
        proof (cases "page_breaks P pageNum payload")
          case True
          with "1.prems"(1) le req r Inr have "fs = acc'"
            by (subst (asm) listFolders_loop.simps) (simp add: acc'_def)
          with acc' show ?thesis by simp
        next
          case False
          with "1.prems"(1) le req r Inr
          have rec: "listFolders_loop P net l parent (pageNum + 1) acc' = (Inr fs, log')"
            by (subst (asm) listFolders_loop.simps) (simp add: acc'_def)
          show ?thesis
            using "1.IH" [OF _ req [symmetric] r Inr False] le rec acc' by (simp add: acc'_def)
        qed
      qed
    qed
  qed
qed

lemma listFolders_ids:
  "listFolders P net log parent = (Inr fs, log') \<Longrightarrow> f \<in> set fs \<Longrightarrow> folder_id f \<noteq> []"
  using listFolders_loop_ids [of P net log parent 1 "[]" fs log'] by (simp add: listFolders_def)

lemma find_folder_Some: "find_folder name fs = Some f \<Longrightarrow> f \<in> set fs \<and> folder_name f = name"
  by (auto simp: find_folder_def find_Some_iff)

text \<open>What an attempt records is read from the answer to the candidate's own request:
  the error of a rejected \<open>fetch\<close>, of a status that is not 2xx, of a body that is not
  JSON, or the error of \<open>ensureSuccessPayload\<close>; and \<open>ok\<close> when there is none.\<close>

lemma try_candidate_outcome:
  "att_error (fst (try_candidate net log item)) =
     (case net (log @ [cand_request item]) of
        None \<Rightarrow> Some FetchRejected
      | Some r \<Rightarrow>
          if \<not> resp_ok r then Some (RequestFailed (resp_status r) (cand_endpoint item))
          else if \<not> truthy (resp_json r) then Some (NotJson (cand_endpoint item))
          else (case ensureSuccessPayload (the (resp_json r))
                       (''createFolder:'' @ cand_endpoint item) of
                  Inl e \<Rightarrow> Some e
                | Inr u \<Rightarrow> None))"
  by (simp add: try_candidate_def requestOpenApi_def fetch_def cand_request_def
           split: option.splits sum.splits)

lemma try_candidate_ok:
  "att_ok (fst (try_candidate net log item)) \<longleftrightarrow> att_error (fst (try_candidate net log item)) = None"
  by (simp add: try_candidate_def split: prod.splits sum.splits)

text \<open>
  Claim C6, amended. In \<open>ensureFolderPath\<close>, take a segment whose normalized name is not
  among the folders that listing the parent returns. Then \<open>createFolderCandidates\<close>
  issues the five candidate requests in their order, whatever the earlier ones answered,
  and returns five attempts: the i-th has the endpoint and the method of the i-th
  candidate, the error that the answer to that candidate's request gives, and \<open>ok\<close>
  exactly when there is no error. After them the parent is listed once more. When that
  listing throws, its error is the error of \<open>ensureFolderPath\<close>. When it returns and
  the name is in it, the loop goes on with the found folder's id as parent and a trace
  entry that holds the attempts; when it returns and the name is not in it,
  \<open>ensureFolderPath\<close> throws the error that names the segment.
\<close>

theorem ensure_missing_segment_tries_all_candidates:
  assumes name: "normalizeFolderName (Some rawPart) = folderName" "folderName \<noteq> []"
    and first: "listFolders P net log parent = (Inr folders, log1)"
    and missing: "find_folder folderName folders = None"
  shows "\<exists>attempts.
      createFolderCandidates P net log1 parent folderName
        = (attempts, log1 @ map cand_request (candidates P parent folderName))
    \<and> length attempts = 5
    \<and> (\<forall>i<5. att_endpoint (attempts ! i) = cand_endpoint (candidates P parent folderName ! i)
             \<and> att_method (attempts ! i) = cand_method (candidates P parent folderName ! i)
             \<and> att_error (attempts ! i) =
                 (case net (log1 @ map cand_request (take (Suc i) (candidates P parent folderName))) of
                    None \<Rightarrow> Some FetchRejected
                  | Some r \<Rightarrow>
                      if \<not> resp_ok r
                      then Some (RequestFailed (resp_status r)
                                   (cand_endpoint (candidates P parent folderName ! i)))
                      else if \<not> truthy (resp_json r)
                      then Some (NotJson (cand_endpoint (candidates P parent folderName ! i)))
                      else (case ensureSuccessPayload (the (resp_json r))
                                   (''createFolder:''
                                      @ cand_endpoint (candidates P parent folderName ! i)) of
                              Inl e \<Rightarrow> Some e
                            | Inr u \<Rightarrow> None))
             \<and> (att_ok (attempts ! i) \<longleftrightarrow> att_error (attempts ! i) = None))
    \<and> ensureFolderPath_loop P net log parent trace (rawPart # parts) =
        (case listFolders P net (log1 @ map cand_request (candidates P parent folderName)) parent of
           (Inl e, log3) \<Rightarrow> (Inl e, log3)
         | (Inr refreshed, log3) \<Rightarrow>
             (case find_folder folderName refreshed of
                Some found \<Rightarrow>
                  ensureFolderPath_loop P net log3 (folder_id found)
                    (trace @ [EnsureCreated parent folderName True attempts]) parts
              | None \<Rightarrow> (Inl (CannotLocateDirectory folderName), log3)))"
proof -
  define cands where "cands = candidates P parent folderName"
  define attempts where "attempts =
     map (\<lambda>i. fst (try_candidate net (log1 @ map cand_request (take i cands)) (cands ! i)))
       [0..<length cands]"
  have len: "length cands = 5" by (simp add: cands_def length_candidates)
  have cf: "createFolderCandidates P net log1 parent folderName
              = (attempts, log1 @ map cand_request cands)"
    by (simp add: createFolderCandidates_eq attempts_def cands_def del: upt_Suc)
  have la: "length attempts = 5" by (simp add: attempts_def len)
  have nth: "attempts ! i = fst (try_candidate net (log1 @ map cand_request (take i cands)) (cands ! i))"
    if "i < 5" for i
    using that len by (simp add: attempts_def del: upt_Suc)
  have upto: "(log1 @ map cand_request (take i cands)) @ [cand_request (cands ! i)]
                = log1 @ map cand_request (take (Suc i) cands)"
    if "i < 5" for i
    using that len by (simp add: take_Suc_conv_app_nth)
  have err: "att_error (attempts ! i) =
                 (case net (log1 @ map cand_request (take (Suc i) cands)) of
                    None \<Rightarrow> Some FetchRejected
                  | Some r \<Rightarrow>
                      if \<not> resp_ok r
                      then Some (RequestFailed (resp_status r) (cand_endpoint (cands ! i)))
                      else if \<not> truthy (resp_json r)
                      then Some (NotJson (cand_endpoint (cands ! i)))
                      else (case ensureSuccessPayload (the (resp_json r))
                                   (''createFolder:'' @ cand_endpoint (cands ! i)) of
                              Inl e \<Rightarrow> Some e
                            | Inr u \<Rightarrow> None))"
    if "i < 5" for i
    using try_candidate_outcome [of net "log1 @ map cand_request (take i cands)" "cands ! i"]
    by (simp only: nth [OF that] upto [OF that])
  have ok: "att_ok (attempts ! i) \<longleftrightarrow> att_error (attempts ! i) = None" if "i < 5" for i
    by (simp only: nth [OF that] try_candidate_ok)
  have ep: "att_endpoint (attempts ! i) = cand_endpoint (cands ! i)"
    and me: "att_method (attempts ! i) = cand_method (cands ! i)" if "i < 5" for i
    by (simp_all only: nth [OF that] att_endpoint_try att_method_try)
  have seg: "ensure_segment P net log parent folderName =
        (case listFolders P net (log1 @ map cand_request cands) parent of
           (Inl e, log3) \<Rightarrow> (Inl e, log3)
         | (Inr refreshed, log3) \<Rightarrow>
             (case find_folder folderName refreshed of
                Some found \<Rightarrow>
                  (Inr (folder_id found, EnsureCreated parent folderName True attempts), log3)
              | None \<Rightarrow> (Inl (CannotLocateDirectory folderName), log3)))"
  proof (cases "listFolders P net (log1 @ map cand_request cands) parent")
    case (Pair r log3)
    show ?thesis
    proof (cases r)
      case (Inl e)
      with Pair show ?thesis
        using first missing cf by (simp add: ensure_segment_def cands_def)
    next
      case (Inr refreshed)
      note relist = Pair [unfolded Inr]
      show ?thesis
      proof (cases "find_folder folderName refreshed")
        case None
        then show ?thesis
          using first missing relist cf by (simp add: ensure_segment_def cands_def)
      next
        case (Some found)
        with relist have "folder_id found \<noteq> []"
          using listFolders_ids find_folder_Some by blast
        with Some show ?thesis
          using first missing relist cf by (simp add: ensure_segment_def cands_def)
      qed
    qed
  qed
  have loop: "ensureFolderPath_loop P net log parent trace (rawPart # parts) =
        (case listFolders P net (log1 @ map cand_request cands) parent of
           (Inl e, log3) \<Rightarrow> (Inl e, log3)
         | (Inr refreshed, log3) \<Rightarrow>
             (case find_folder folderName refreshed of
                Some found \<Rightarrow>
                  ensureFolderPath_loop P net log3 (folder_id found)
                    (trace @ [EnsureCreated parent folderName True attempts]) parts
              | None \<Rightarrow> (Inl (CannotLocateDirectory folderName), log3)))"
    using name seg by (simp add: Let_def split: option.splits prod.splits sum.splits)
  show ?thesis
    unfolding cands_def [symmetric]
  proof (intro exI [of _ attempts] conjI allI impI)
    show "createFolderCandidates P net log1 parent folderName
            = (attempts, log1 @ map cand_request cands)" by (rule cf)
    show "length attempts = 5" by (rule la)
    show "ensureFolderPath_loop P net log parent trace (rawPart # parts) =
        (case listFolders P net (log1 @ map cand_request cands) parent of
           (Inl e, log3) \<Rightarrow> (Inl e, log3)
         | (Inr refreshed, log3) \<Rightarrow>
             (case find_folder folderName refreshed of
                Some found \<Rightarrow>
                  ensureFolderPath_loop P net log3 (folder_id found)
                    (trace @ [EnsureCreated parent folderName True attempts]) parts
              | None \<Rightarrow> (Inl (CannotLocateDirectory folderName), log3)))" by (rule loop)
  next
    fix i :: nat assume "i < 5"
    then show "att_endpoint (attempts ! i) = cand_endpoint (cands ! i)" by (rule ep)
  next
    fix i :: nat assume "i < 5"
    then show "att_method (attempts ! i) = cand_method (cands ! i)" by (rule me)
  next
    fix i :: nat assume "i < 5"
    then show "att_error (attempts ! i) =
                 (case net (log1 @ map cand_request (take (Suc i) cands)) of
                    None \<Rightarrow> Some FetchRejected
                  | Some r \<Rightarrow>
                      if \<not> resp_ok r
                      then Some (RequestFailed (resp_status r) (cand_endpoint (cands ! i)))
                      else if \<not> truthy (resp_json r)
                      then Some (NotJson (cand_endpoint (cands ! i)))
                      else (case ensureSuccessPayload (the (resp_json r))
                                   (''createFolder:'' @ cand_endpoint (cands ! i)) of
                              Inl e \<Rightarrow> Some e
                            | Inr u \<Rightarrow> None))" by (rule err)
  next
    fix i :: nat assume "i < 5"
    then show "att_ok (attempts ! i) \<longleftrightarrow> att_error (attempts ! i) = None" by (rule ok)
  qed
qed

text \<open>On the server \<open>creating_net\<close> the folder \<open>saves\<close> is missing from the root at first;
  the five requests are issued although the last two are refused with status 403, which
  the last two attempts record, and the second listing finds the folder with id \<open>77\<close>.\<close>

theorem ensure_missing_segment_tries_all_candidates_witness:
  "\<exists>attempts.
      map att_endpoint attempts = map cand_endpoint (candidates sample_platform ''-11'' ''saves'')
    \<and> map att_ok attempts = [True, True, True, False, False]
    \<and> map att_error attempts
        = [None, None, None,
           Some (RequestFailed 403 ''/api/open/batch/createBatchTask.action''),
           Some (RequestFailed 403 ''/api/open/batch/createBatchTask.action'')]
    \<and> ensureFolderPath_loop sample_platform creating_net [] ''-11'' [] [JStr ''saves''] =
        (Inr (''77'', [EnsureCreated ''-11'' ''saves'' True attempts]),
         first_listing # map cand_request (candidates sample_platform ''-11'' ''saves'')
           @ [first_listing])"
proof -
  define cands where "cands = candidates sample_platform ''-11'' ''saves''"
  define out where "out = (\<lambda>i.
     case creating_net ([first_listing] @ map cand_request (take (Suc i) cands)) of
       None \<Rightarrow> Some FetchRejected
     | Some r \<Rightarrow>
         if \<not> resp_ok r then Some (RequestFailed (resp_status r) (cand_endpoint (cands ! i)))
         else if \<not> truthy (resp_json r) then Some (NotJson (cand_endpoint (cands ! i)))
         else (case ensureSuccessPayload (the (resp_json r))
                      (''createFolder:'' @ cand_endpoint (cands ! i)) of
                 Inl e \<Rightarrow> Some e
               | Inr u \<Rightarrow> None))"
  have name: "normalizeFolderName (Some (JStr ''saves'')) = ''saves''" "''saves'' \<noteq> []"
    by code_simp+
  have first: "listFolders sample_platform creating_net [] ''-11'' = (Inr [], [first_listing])"
    by code_simp
  have missing: "find_folder ''saves'' [] = None"
    by code_simp
  have relist: "listFolders sample_platform creating_net
                  (first_listing # map cand_request (candidates sample_platform ''-11'' ''saves''))
                  ''-11''
                = (Inr [\<lparr>folder_id = ''77'', folder_name = ''saves''\<rparr>],
                   first_listing # map cand_request (candidates sample_platform ''-11'' ''saves'')
                     @ [first_listing])"
    by code_simp
  have found: "find_folder ''saves'' [\<lparr>folder_id = ''77'', folder_name = ''saves''\<rparr>]
                 = Some \<lparr>folder_id = ''77'', folder_name = ''saves''\<rparr>"
    by code_simp
  have outs: "map out [0, 1, 2, 3, 4]
        = [None, None, None,
           Some (RequestFailed 403 ''/api/open/batch/createBatchTask.action''),
           Some (RequestFailed 403 ''/api/open/batch/createBatchTask.action'')]"
    unfolding out_def cands_def by code_simp
  from ensure_missing_segment_tries_all_candidates [OF name first missing, of "[]" "[]"]
  obtain attempts where
    a: "length attempts = 5"
       "\<forall>i<5. att_endpoint (attempts ! i) = cand_endpoint (cands ! i)"
       "\<forall>i<5. att_error (attempts ! i) = out i"
       "\<forall>i<5. att_ok (attempts ! i) \<longleftrightarrow> att_error (attempts ! i) = None"
       "ensureFolderPath_loop sample_platform creating_net [] ''-11'' [] [JStr ''saves''] =
        (Inr (''77'', [EnsureCreated ''-11'' ''saves'' True attempts]),
         first_listing # map cand_request (candidates sample_platform ''-11'' ''saves'')
           @ [first_listing])"
    unfolding out_def cands_def by (auto simp add: relist found)
  have five: "[0..<5] = [0, 1, 2, 3, 4::nat]" by code_simp
  have "map (\<lambda>i. attempts ! i) [0..<length attempts] = attempts" by (rule map_nth)
  with a(1) five have as: "attempts = map (\<lambda>i. attempts ! i) [0, 1, 2, 3, 4]"
    by (simp only:)
  from a(1,2) have e: "map att_endpoint attempts = map cand_endpoint cands"
    by (intro nth_equalityI) (simp_all add: length_candidates cands_def)
  have er: "map att_error attempts = map out [0, 1, 2, 3, 4]"
    by (subst as) (simp add: a(3))
  have okk: "map att_ok attempts = map (\<lambda>i. out i = None) [0, 1, 2, 3, 4]"
    by (subst as) (simp add: a(3) a(4))
  from outs have o5: "out 0 = None" "out 1 = None" "out 2 = None"
    "out 3 = Some (RequestFailed 403 ''/api/open/batch/createBatchTask.action'')"
    "out 4 = Some (RequestFailed 403 ''/api/open/batch/createBatchTask.action'')"
    by simp_all
  from okk o5 have ok5: "map att_ok attempts = [True, True, True, False, False]" by simp
  from er outs have er5: "map att_error attempts
        = [None, None, None,
           Some (RequestFailed 403 ''/api/open/batch/createBatchTask.action''),
           Some (RequestFailed 403 ''/api/open/batch/createBatchTask.action'')]"
    by (simp only:)
  from e ok5 er5 a(5) show ?thesis
    unfolding cands_def by (intro exI [of _ attempts] conjI)
qed

text \<open>On the server \<open>relist_fails_net\<close> the folder \<open>saves\<close> is missing, the five create
  calls are made, and the second listing is answered with status 500: the error of
  \<open>ensureFolderPath\<close> is the error of that listing, which does not name the segment.\<close>

theorem failed_relisting_gives_its_own_error:
  "ensureFolderPath sample_platform relist_fails_net [] [JStr ''saves'']
     = (Inl (RequestFailed 500 ''/api/open/file/listFiles.action''),
        first_listing # map cand_request (candidates sample_platform ''-11'' ''saves'')
          @ [first_listing])
   \<and> fst (ensureFolderPath sample_platform relist_fails_net [] [JStr ''saves''])
       \<noteq> Inl (CannotLocateDirectory ''saves'')"
  by code_simp

section \<open>The parts of an upload and the digests of its commit\<close>

lemma commit_forms_append [simp]: "commit_forms (a @ b) = commit_forms a @ commit_forms b"
  by (simp add: commit_forms_def)
lemma put_bodies_append [simp]: "put_bodies (a @ b) = put_bodies a @ put_bodies b"
  by (simp add: put_bodies_def)
lemma part_infos_append [simp]: "part_infos (a @ b) = part_infos a @ part_infos b"
  by (simp add: part_infos_def)

lemma snd_uploadRequest: "snd (uploadRequest net log uri form) = log @ [UploadApi uri form]"
  by (simp add: uploadRequest_def fetch_def split: option.splits)

lemma uploadRequest_log:
  "uploadRequest net log uri form = (res, log') \<Longrightarrow> log' = log @ [UploadApi uri form]"
  using snd_uploadRequest [of net log uri form] by simp

lemma chunkBuffer_is_spec_part: "chunkBuffer_of content C i = spec_part content C i"
  by (simp add: chunkBuffer_of_def spec_part_def Let_def min_def)

lemma upload_part_log:
  assumes "upload_part P net log content C fid i = (res, log')"
  shows "commit_forms log' = commit_forms log
       \<and> part_infos log' = part_infos log @ [part_info P content C i]
       \<and> (put_bodies log' = put_bodies log \<or> put_bodies log' = put_bodies log @ [spec_part content C i])
       \<and> (\<forall>hx cb. res = Inr (hx, cb) \<longrightarrow>
             hx = toUpperCase (hex_lower (md5 P (spec_part content C i)))
           \<and> cb = spec_part content C i
           \<and> put_bodies log' = put_bodies log @ [spec_part content C i])"
proof -
  obtain r1 l1 where u: "uploadRequest net log ''/person/getMultiUploadUrls''
      [(''partInfo'', show_nat i @ ''-'' @ base64 P (md5 P (spec_part content C i))),
       (''uploadFileId'', fid)] = (r1, l1)"
    by (cases "uploadRequest net log ''/person/getMultiUploadUrls''
      [(''partInfo'', show_nat i @ ''-'' @ base64 P (md5 P (spec_part content C i))),
       (''uploadFileId'', fid)]")
  from uploadRequest_log [OF u] have l1: "l1 = log @ [UploadApi ''/person/getMultiUploadUrls''
      [(''partInfo'', show_nat i @ ''-'' @ base64 P (md5 P (spec_part content C i))),
       (''uploadFileId'', fid)]]" .
  have c1: "commit_forms l1 = commit_forms log" "put_bodies l1 = put_bodies log"
    "part_infos l1 = part_infos log @ [part_info P content C i]"
    by (simp_all add: l1 commit_forms_def put_bodies_def part_infos_def part_info_def)
  show ?thesis
    using assms u c1
    by (auto simp: upload_part_def chunkBuffer_is_spec_part Let_def fetch_def
          commit_forms_def put_bodies_def part_infos_def
        split: sum.splits option.splits if_splits)
qed

lemma upload_parts_log:
  "upload_parts P net log content C N fid i m h = (res, log') \<Longrightarrow> i \<le> N + 1 \<Longrightarrow>
     commit_forms log' = commit_forms log
   \<and> (\<exists>k. i \<le> k \<and> k \<le> N + 1
          \<and> put_bodies log' = put_bodies log @ map (spec_part content C) [i..<k])
   \<and> (\<exists>k. i \<le> k \<and> k \<le> N + 1
          \<and> part_infos log' = part_infos log @ map (part_info P content C) [i..<k])
   \<and> (\<forall>m' h'. res = Inr (m', h') \<longrightarrow>
          m' = m @ map (part_hex P content C) [i..<N + 1]
        \<and> h' = h @ concat (map (spec_part content C) [i..<N + 1])
        \<and> put_bodies log' = put_bodies log @ map (spec_part content C) [i..<N + 1]
        \<and> part_infos log' = part_infos log @ map (part_info P content C) [i..<N + 1])"
proof (induction P net log content C N fid i m h rule: upload_parts.induct)
  case (1 P net log content C N fid i m h)
  show ?case
  proof (cases "i \<le> N")
    case False
    with "1.prems" have "i = N + 1" "res = Inr (m, h)" "log' = log"
      by (simp_all add: upload_parts.simps)
    then show ?thesis by auto
  next
    case True
    obtain r l where up: "upload_part P net log content C fid i = (r, l)"
      by (cases "upload_part P net log content C fid i")
    note pl = upload_part_log [OF up]
    show ?thesis
    proof (cases r)
      case (Inl e)
      with "1.prems"(1) True up have eq: "res = Inl e" "log' = l"
        by (simp_all add: upload_parts.simps)
      have pi: "part_infos log' = part_infos log @ map (part_info P content C) [i..<i + 1]"
        using pl eq by simp
      from pl eq have "put_bodies log' = put_bodies log @ map (spec_part content C) [i..<i]
          \<or> put_bodies log' = put_bodies log @ map (spec_part content C) [i..<i + 1]"
        by auto
      then have "\<exists>k. i \<le> k \<and> k \<le> N + 1
          \<and> put_bodies log' = put_bodies log @ map (spec_part content C) [i..<k]"
        using True by (metis le_add1 add_le_mono1 le_refl "1.prems"(2))
      moreover have "\<exists>k. i \<le> k \<and> k \<le> N + 1
          \<and> part_infos log' = part_infos log @ map (part_info P content C) [i..<k]"
        using pi True by (metis le_add1 add_le_mono1)
      ultimately show ?thesis using pl eq by simp
    next
      case (Inr p)
      obtain hx cb where p: "p = (hx, cb)" by (cases p)
      from pl Inr p have hx: "hx = part_hex P content C i" and cb: "cb = spec_part content C i"
        and pb: "put_bodies l = put_bodies log @ [spec_part content C i]"
        and pi: "part_infos l = part_infos log @ [part_info P content C i]"
        and cf: "commit_forms l = commit_forms log"
        by (simp_all add: part_hex_def)
      from "1.prems"(1) True up Inr p
      have rec: "upload_parts P net l content C N fid (i + 1) (m @ [hx]) (h @ cb) = (res, log')"
        by (subst (asm) upload_parts.simps) simp
      have i1: "i + 1 \<le> N + 1" using True by simp
      note IH = "1.IH" [OF _ up [symmetric] Inr p [symmetric] rec i1]
      have upt: "[i..<N + 1] = i # [i + 1..<N + 1]" using True by (simp add: upt_conv_Cons)
      from IH True obtain k where k: "i + 1 \<le> k" "k \<le> N + 1"
          "put_bodies log' = put_bodies l @ map (spec_part content C) [i + 1..<k]"
        by auto
      then have "put_bodies log' = put_bodies log @ map (spec_part content C) [i..<k]"
        using pb by (simp add: upt_conv_Cons)
      with k have B: "\<exists>k. i \<le> k \<and> k \<le> N + 1
          \<and> put_bodies log' = put_bodies log @ map (spec_part content C) [i..<k]"
        by (metis add_leD1)
      from IH True obtain k' where k': "i + 1 \<le> k'" "k' \<le> N + 1"
          "part_infos log' = part_infos l @ map (part_info P content C) [i + 1..<k']"
        by auto
      then have "part_infos log' = part_infos log @ map (part_info P content C) [i..<k']"
        using pi by (simp add: upt_conv_Cons)
      with k' have Cc: "\<exists>k. i \<le> k \<and> k \<le> N + 1
          \<and> part_infos log' = part_infos log @ map (part_info P content C) [i..<k]"
        by (metis add_leD1)
      have D: "\<forall>m' h'. res = Inr (m', h') \<longrightarrow>
          m' = m @ map (part_hex P content C) [i..<N + 1]
        \<and> h' = h @ concat (map (spec_part content C) [i..<N + 1])
        \<and> put_bodies log' = put_bodies log @ map (spec_part content C) [i..<N + 1]
        \<and> part_infos log' = part_infos log @ map (part_info P content C) [i..<N + 1]"
        using IH True hx cb pb pi unfolding upt by simp
      from IH True cf have A: "commit_forms log' = commit_forms log" by simp
      from A B Cc D show ?thesis by blast
    qed
  qed
qed

lemma concat_spec_parts:
  "concat (map (spec_part xs C) [1..<n + 1]) = take (n * C) xs"
proof (induction n)
  case 0
  then show ?case by simp
next
  case (Suc n)
  have "take (n * C) xs @ take C (drop (n * C) xs) = take (n * C + C) xs"
    by (simp add: take_add)
  with Suc show ?case by (simp add: spec_part_def add.commute)
qed

lemma div_mult_plus_less: "d < (C::nat) \<Longrightarrow> (k * C + d) div C = k"
  by simp

lemma ceil_div_eq: "0 < C \<Longrightarrow> (S + C - 1) div C = ceil_div S C"
proof -
  assume C: "0 < C"
  define q r where "q = S div C" and "r = S mod C"
  have S: "S = q * C + r" and r: "r < C" using C by (simp_all add: q_def r_def)
  show ?thesis
  proof (cases "r = 0")
    case True
    from C obtain d where d: "C = Suc d" by (cases C) simp_all
    have "S + C - 1 = q * C + d" using S True d by simp
    moreover have "d < C" using d by simp
    then have "(q * C + d) div C = q" by (rule div_mult_plus_less)
    ultimately have "(S + C - 1) div C = q" by simp
    moreover have "ceil_div S C = q" using True by (simp add: ceil_div_def q_def r_def)
    ultimately show ?thesis by simp
  next
    case False
    then have "S + C - 1 = (q + 1) * C + (r - 1)" using S by simp
    moreover have "r - 1 < C" using r by simp
    then have "((q + 1) * C + (r - 1)) div C = q + 1" by (rule div_mult_plus_less)
    ultimately have "(S + C - 1) div C = q + 1" by (simp only:)
    moreover have "ceil_div S C = q + 1" using False by (simp add: ceil_div_def q_def r_def)
    ultimately show ?thesis by simp
  qed
qed

lemma ceil_div_covers: "0 < C \<Longrightarrow> S \<le> ceil_div S C * C"
proof -
  assume C: "0 < C"
  define q r where "q = S div C" and "r = S mod C"
  have S: "S = q * C + r" and r: "r < C" using C by (simp_all add: q_def r_def)
  show ?thesis
  proof (cases "r = 0")
    case True
    then have "ceil_div S C = q" by (simp add: ceil_div_def q_def r_def)
    moreover have "S = q * C" using S True by simp
    ultimately show ?thesis by simp
  next
    case False
    have "S \<le> (q + 1) * C" using S r by simp
    moreover have "ceil_div S C = q + 1" using False by (simp add: ceil_div_def q_def r_def)
    ultimately show ?thesis by simp
  qed
qed

lemma chunkSize_pos: "0 < chunkSize_of ss"
  by (simp add: chunkSize_of_def)

lemma chunkCount_eq: "chunkCount_of S (chunkSize_of ss) = max 1 (ceil_div S (chunkSize_of ss))"
  using ceil_div_eq [OF chunkSize_pos, of S ss] by (simp add: chunkCount_of_def)

lemma chunkCount_covers: "S \<le> chunkCount_of S (chunkSize_of ss) * chunkSize_of ss"
proof -
  have "S \<le> ceil_div S (chunkSize_of ss) * chunkSize_of ss"
    by (rule ceil_div_covers) (rule chunkSize_pos)
  also have "\<dots> \<le> chunkCount_of S (chunkSize_of ss) * chunkSize_of ss"
    by (simp add: chunkCount_eq)
  finally show ?thesis .
qed

lemma all_parts_concat:
  "concat (map (spec_part content (chunkSize_of ss))
             [1..<chunkCount_of (length content) (chunkSize_of ss) + 1]) = content"
proof -
  have "concat (map (spec_part content (chunkSize_of ss))
             [1..<chunkCount_of (length content) (chunkSize_of ss) + 1])
        = take (chunkCount_of (length content) (chunkSize_of ss) * chunkSize_of ss) content"
    by (rule concat_spec_parts)
  with chunkCount_covers [of "length content" ss] show ?thesis by simp
qed

lemma ceil_div_gt_one: "0 < C \<Longrightarrow> C < S \<Longrightarrow> 1 \<le> ceil_div S C"
  by (auto simp: ceil_div_def Suc_le_eq div_greater_zero_iff)

lemma spec_sliceMd5_of_parts:
  "(if length content \<le> chunkSize_of ss then hex_lower (md5 P content)
    else md5Hex P (join [CHR 10]
           (map (part_hex P content (chunkSize_of ss))
              [1..<chunkCount_of (length content) (chunkSize_of ss) + 1])))
   = spec_sliceMd5 P content (chunkSize_of ss) (ceil_div (length content) (chunkSize_of ss))"
proof (cases "length content \<le> chunkSize_of ss")
  case True
  then show ?thesis by (simp add: spec_sliceMd5_def)
next
  case False
  then have "1 \<le> ceil_div (length content) (chunkSize_of ss)"
    using ceil_div_gt_one [OF chunkSize_pos] by simp
  then have "chunkCount_of (length content) (chunkSize_of ss)
               = ceil_div (length content) (chunkSize_of ss)"
    by (simp add: chunkCount_eq)
  with False show ?thesis by (simp add: spec_sliceMd5_def part_hex_def [abs_def])
qed

lemma uploadFileSlices_log:
  assumes run: "uploadFileSlices P net log0 (RegularFile content) bn parent rn ss = (res, log)"
  shows "\<exists>fid k. 1 \<le> k \<and> k \<le> chunkCount_of (length content) (chunkSize_of ss) + 1
      \<and> put_bodies log = put_bodies log0 @ map (spec_part content (chunkSize_of ss)) [1..<k]
      \<and> (commit_forms log = commit_forms log0
           \<or> commit_forms log = commit_forms log0 @ [commit_form P content (chunkSize_of ss) fid]
             \<and> k = chunkCount_of (length content) (chunkSize_of ss) + 1)
      \<and> (\<forall>info. res = Inr info \<longrightarrow>
            commit_forms log = commit_forms log0 @ [commit_form P content (chunkSize_of ss) fid]
          \<and> k = chunkCount_of (length content) (chunkSize_of ss) + 1
          \<and> part_infos log = part_infos log0 @ map (part_info P content (chunkSize_of ss)) [1..<k]
          \<and> info_chunkCount info = chunkCount_of (length content) (chunkSize_of ss)
          \<and> info_fileSize info = length content)"
proof -
  define C where "C = chunkSize_of ss"
  define N where "N = chunkCount_of (length content) C"
  define initForm where "initForm =
     [(''parentFolderId'', if parent = [] then ROOT_FOLDER_ID else parent),
      (''fileName'', encodeURIComponent P (if rn = [] then bn else rn)),
      (''fileSize'', show_nat (length content)),
      (''sliceSize'', show_nat C),
      (''lazyCheck'', ''1'')]"
  obtain r1 l1 where init: "uploadRequest net log0 ''/person/initMultiUpload'' initForm = (r1, l1)"
    by (cases "uploadRequest net log0 ''/person/initMultiUpload'' initForm")
  from uploadRequest_log [OF init] have l1: "commit_forms l1 = commit_forms log0"
      "put_bodies l1 = put_bodies log0" "part_infos l1 = part_infos log0"
    by (simp_all add: commit_forms_def put_bodies_def part_infos_def)
  have N1: "1 \<le> N + 1" by simp
  show ?thesis
  proof (cases r1)
    case (Inl e)
    with run init have "res = Inl e" "log = l1"
      by (simp_all add: uploadFileSlices_def Let_def C_def initForm_def)
    with l1 show ?thesis
      unfolding C_def [symmetric] N_def [symmetric]
      by (intro exI [of _ "[]"] exI [of _ 1]) simp
  next
    case (Inr initPayload)
    define fid where "fid = uploadFileId_of initPayload"
    show ?thesis
    proof (cases "fid = []")
      case True
      with run init Inr have "res = Inl MissingUploadFileId" "log = l1"
        by (simp_all add: uploadFileSlices_def Let_def C_def initForm_def fid_def)
      with l1 show ?thesis
        unfolding C_def [symmetric] N_def [symmetric]
        by (intro exI [of _ "[]"] exI [of _ 1]) simp
    next
      case False
      obtain r2 l2 where parts: "upload_parts P net l1 content C N fid 1 [] [] = (r2, l2)"
        by (cases "upload_parts P net l1 content C N fid 1 [] []")
      note pl = upload_parts_log [OF parts N1]
      from pl l1 have cf2: "commit_forms l2 = commit_forms log0" by simp
      from pl l1 obtain k where k: "1 \<le> k" "k \<le> N + 1"
          "put_bodies l2 = put_bodies log0 @ map (spec_part content C) [1..<k]"
        by auto
      show ?thesis
      proof (cases r2)
        case (Inl e)
        with run init \<open>r1 = Inr initPayload\<close> False parts have eq: "res = Inl e" "log = l2"
          by (simp_all add: uploadFileSlices_def Let_def C_def [symmetric] N_def [symmetric]
                initForm_def [symmetric] fid_def [symmetric])
        with k cf2 show ?thesis
          unfolding C_def [symmetric] N_def [symmetric]
          by (intro exI [of _ "[]"] exI [of _ k]) simp
      next
        case (Inr p)
        obtain m h where p: "p = (m, h)" by (cases p)
        from pl Inr p l1 have m: "m = map (part_hex P content C) [1..<N + 1]"
          and h: "h = concat (map (spec_part content C) [1..<N + 1])"
          and pb: "put_bodies l2 = put_bodies log0 @ map (spec_part content C) [1..<N + 1]"
          and pi: "part_infos l2 = part_infos log0 @ map (part_info P content C) [1..<N + 1]"
          by simp_all
        have h': "h = content" unfolding h C_def N_def by (rule all_parts_concat)
        define form where "form =
            [(''uploadFileId'', fid), (''fileMd5'', hex_lower (md5 P h)),
             (''sliceMd5'', if length content \<le> C then hex_lower (md5 P h)
                            else md5Hex P (join [CHR 10] m)),
             (''lazyCheck'', ''1''), (''opertype'', ''3'')]"
        have form: "form = commit_form P content C fid"
          unfolding form_def commit_form_def h' m C_def N_def
          using spec_sliceMd5_of_parts [of content ss P] by simp
        obtain r3 l3 where commit:
          "uploadRequest net l2 ''/person/commitMultiUploadFile'' form = (r3, l3)"
          by (cases "uploadRequest net l2 ''/person/commitMultiUploadFile'' form")
        from uploadRequest_log [OF commit] cf2 pb pi
        have l3: "commit_forms l3 = commit_forms log0 @ [form]"
            "put_bodies l3 = put_bodies log0 @ map (spec_part content C) [1..<N + 1]"
            "part_infos l3 = part_infos log0 @ map (part_info P content C) [1..<N + 1]"
          by (simp_all add: commit_forms_def put_bodies_def part_infos_def)
        have log: "log = l3"
          and res: "\<forall>info. res = Inr info \<longrightarrow> info_chunkCount info = N \<and> info_fileSize info = length content"
          using run init \<open>r1 = Inr initPayload\<close> False parts Inr p commit
          by (auto simp: uploadFileSlices_def Let_def C_def [symmetric] N_def [symmetric]
                initForm_def [symmetric] fid_def [symmetric] form_def [symmetric]
              split: sum.splits)
        show ?thesis
          unfolding C_def [symmetric] N_def [symmetric]
          using l3 log res form
          by (intro exI [of _ fid] exI [of _ "N + 1"]) simp
      qed
    qed
  qed
qed

lemmas upload_eval =
  uploadFileSlices_def Let_def chunkSize_of_def DEFAULT_SLICE_SIZE_def chunkCount_of_def
  uploadRequest_def fetch_def upload_net_def success_with_def json_response_def resp_ok_def
  upload_parts.simps upload_part_def chunkBuffer_of_def show_nat.simps digit_char_def
  sample_platform_def uploadFileId_of_def userFileId_of_def js_and_def str_or_empty_def
  trim_def is_js_space_def uploadUrls_of_def is_object_def parseRequestHeaderPairs_def
  add_header_pair_def index_of_def hex_lower_def toUpperCase_def md5Hex_def
  put_bodies_def commit_forms_def part_infos_def ceil_div_def hex_digit_def upper_char_def



lemma length_spec_part: "length (spec_part content C i) = min C (length content - (i - 1) * C)"
  by (simp add: spec_part_def min.commute)

text \<open>
  Claim C2, amended. With the effective chunk size \<open>C\<close> and a file of \<open>S\<close> bytes, the bodies
  of the part PUTs of a run are the parts \<open>1, \<dots>, k - 1\<close> in this order, part \<open>i\<close> being the
  \<open>min(C, S - (i - 1) * C)\<close> bytes at offset \<open>(i - 1) * C\<close>. When the run succeeds all
  \<open>N = max(1, ceil(S / C))\<close> parts have been sent, numbered \<open>1, \<dots>, N\<close> in the requests for
  their URLs, the result reports \<open>N\<close> as the chunk count, and the bodies concatenated are
  the file. So \<open>N\<close> is \<open>ceil(S / C)\<close> for a file that is not empty, and 1 for the empty
  file, whose single part is empty.
\<close>

theorem parts_cover_the_file:
  assumes run: "uploadFileSlices P net [] (RegularFile content) baseName parentFolderId
                  remoteName sliceSize = (res, log)"
  shows "\<exists>k. 1 \<le> k \<and> k \<le> max 1 (ceil_div (length content) (chunkSize_of sliceSize)) + 1
      \<and> put_bodies log = map (spec_part content (chunkSize_of sliceSize)) [1..<k]
      \<and> (\<forall>i. length (spec_part content (chunkSize_of sliceSize) i)
                = min (chunkSize_of sliceSize) (length content - (i - 1) * chunkSize_of sliceSize))
      \<and> (\<forall>info. res = Inr info \<longrightarrow>
            info_chunkCount info = max 1 (ceil_div (length content) (chunkSize_of sliceSize))
          \<and> k = info_chunkCount info + 1
          \<and> part_infos log = map (part_info P content (chunkSize_of sliceSize)) [1..<k]
          \<and> concat (put_bodies log) = content)"
proof -
  from uploadFileSlices_log [OF run] obtain k where
    k: "1 \<le> k" "k \<le> chunkCount_of (length content) (chunkSize_of sliceSize) + 1"
       "put_bodies log = map (spec_part content (chunkSize_of sliceSize)) [1..<k]"
    and ok: "\<forall>info. res = Inr info \<longrightarrow>
           k = chunkCount_of (length content) (chunkSize_of sliceSize) + 1
         \<and> part_infos log = map (part_info P content (chunkSize_of sliceSize)) [1..<k]
         \<and> info_chunkCount info = chunkCount_of (length content) (chunkSize_of sliceSize)"
    by (auto simp: put_bodies_def part_infos_def)
  have "concat (put_bodies log) = content" if "res = Inr info" for info
    using that ok k(3) all_parts_concat [of content sliceSize] by simp
  with k ok show ?thesis
    unfolding chunkCount_eq
    by (intro exI [of _ k]) (simp add: length_spec_part)
qed

text \<open>The file of \<open>2^20 + 1\<close> bytes is sent as a part of \<open>2^20\<close> bytes and a part of one
  byte (on the sample platform the digest of a part is its first 16 bytes).\<close>

theorem parts_cover_the_file_witness:
  "put_bodies (snd (uploadFileSlices sample_platform upload_net [] (RegularFile two_chunk_file)
                      ''save.7z'' ''77'' [] (Some 1048576)))
     = [replicate 1048576 (CHR ''a''), ''a'']
   \<and> part_infos (snd (uploadFileSlices sample_platform upload_net [] (RegularFile two_chunk_file)
                      ''save.7z'' ''77'' [] (Some 1048576)))
     = [''1-aaaaaaaaaaaaaaaa'', ''2-a'']"
proof -
  define run2 where "run2 = uploadFileSlices sample_platform upload_net []
                           (RegularFile two_chunk_file) ''save.7z'' ''77'' [] (Some 1048576)"
  have ok2: "fst run2 = Inr \<lparr>info_userFileId = ''f1'', info_fileSize = 1048577,
                              info_chunkCount = 2, info_uploadFileId = ''u1''\<rparr>"
    unfolding run2_def two_chunk_file_def by (simp add: upload_eval)
  have upt: "[1..<2 + 1] = [1, 2::nat]" by code_simp
  have parts: "map (spec_part two_chunk_file (chunkSize_of (Some 1048576))) [1..<2 + 1]
                 = [replicate 1048576 (CHR ''a''), ''a'']"
    unfolding upt by (simp add: chunkSize_of_def two_chunk_file_def spec_part_def)
  have infos: "map (part_info sample_platform two_chunk_file (chunkSize_of (Some 1048576))) [1..<2 + 1]
                 = [''1-aaaaaaaaaaaaaaaa'', ''2-a'']"
  proof -
    have r16: "replicate 16 (CHR ''a'') = ''aaaaaaaaaaaaaaaa''" by code_simp
    show ?thesis
      unfolding upt
      by (simp add: chunkSize_of_def two_chunk_file_def spec_part_def part_info_def
            sample_platform_def show_nat.simps digit_char_def r16)
  qed
  from parts_cover_the_file [of sample_platform upload_net two_chunk_file "''save.7z''" "''77''"
         "[]" "Some 1048576" "fst run2" "snd run2"] ok2
  obtain k where "k = 2 + 1"
      "put_bodies (snd run2) = map (spec_part two_chunk_file (chunkSize_of (Some 1048576))) [1..<k]"
      "part_infos (snd run2)
         = map (part_info sample_platform two_chunk_file (chunkSize_of (Some 1048576))) [1..<k]"
    by (auto simp: run2_def)
  with parts infos show ?thesis unfolding run2_def by simp
qed

text \<open>The claim as stated fails on the empty file: \<open>ceil(0 / C)\<close> is 0, and the upload
  sends one part, with an empty body, and reports the chunk count 1.\<close>

theorem empty_file_is_one_part:
  "fst (uploadFileSlices sample_platform upload_net [] (RegularFile []) ''save.7z'' ''77'' [] None)
     = Inr \<lparr>info_userFileId = ''f1'', info_fileSize = 0, info_chunkCount = 1,
            info_uploadFileId = ''u1''\<rparr>
   \<and> put_bodies (snd (uploadFileSlices sample_platform upload_net [] (RegularFile [])
                        ''save.7z'' ''77'' [] None)) = [[]]
   \<and> ceil_div 0 (chunkSize_of None) = 0"
  by (simp add: upload_eval)

section \<open>The open-API signature\<close>

lemma mset_insert_by: "mset (insert_by cmp x xs) = add_mset x (mset xs)"
  by (induction xs) simp_all

lemma mset_js_sort: "mset (js_sort cmp xs) = mset xs"
  by (induction xs) (simp_all add: js_sort_def mset_insert_by)

lemma set_insert_by: "set (insert_by cmp x xs) = insert x (set xs)"
  by (induction xs) auto

lemma set_js_sort: "set (js_sort cmp xs) = set xs"
  using mset_js_sort [of cmp xs] by (metis set_mset_mset)

lemma sorted_insert_by:
  assumes total: "\<forall>a\<in>A. \<forall>b\<in>A. cmp a b \<le> 0 \<or> cmp b a \<le> 0"
    and trans: "\<forall>a\<in>A. \<forall>b\<in>A. \<forall>c\<in>A. cmp a b \<le> 0 \<and> cmp b c \<le> 0 \<longrightarrow> cmp a c \<le> 0"
  shows "x \<in> A \<Longrightarrow> set xs \<subseteq> A \<Longrightarrow> sorted_wrt (\<lambda>a b. cmp a b \<le> 0) xs
           \<Longrightarrow> sorted_wrt (\<lambda>a b. cmp a b \<le> 0) (insert_by cmp x xs)"
proof (induction xs)
  case Nil
  then show ?case by simp
next
  case (Cons y ys)
  show ?case
  proof (cases "cmp x y \<le> 0")
    case True
    have "cmp x z \<le> 0" if "z \<in> set ys" for z
    proof -
      from Cons.prems that have "cmp y z \<le> 0" "z \<in> A" "y \<in> A" by auto
      with True trans Cons.prems(1) show ?thesis by blast
    qed
    with True Cons.prems show ?thesis by auto
  next
    case False
    with total Cons.prems have yx: "cmp y x \<le> 0" by auto
    from Cons have "sorted_wrt (\<lambda>a b. cmp a b \<le> 0) (insert_by cmp x ys)" by simp
    with False yx Cons.prems show ?thesis by (auto simp: set_insert_by)
  qed
qed

lemma sorted_js_sort:
  assumes total: "\<forall>a\<in>A. \<forall>b\<in>A. cmp a b \<le> 0 \<or> cmp b a \<le> 0"
    and trans: "\<forall>a\<in>A. \<forall>b\<in>A. \<forall>c\<in>A. cmp a b \<le> 0 \<and> cmp b c \<le> 0 \<longrightarrow> cmp a c \<le> 0"
  shows "set xs \<subseteq> A \<Longrightarrow> sorted_wrt (\<lambda>a b. cmp a b \<le> 0) (js_sort cmp xs)"
proof (induction xs)
  case Nil
  then show ?case by (simp add: js_sort_def)
next
  case (Cons x xs)
  then have "sorted_wrt (\<lambda>a b. cmp a b \<le> 0) (js_sort cmp xs)" "x \<in> A" "set (js_sort cmp xs) \<subseteq> A"
    by (simp_all add: set_js_sort)
  from sorted_insert_by [OF total trans this(2,3,1)] show ?case by (simp add: js_sort_def)
qed

lemma sorted_wrt_unique:
  assumes antisym: "\<forall>a\<in>set xs. \<forall>b\<in>set xs. R a b \<and> R b a \<longrightarrow> a = b"
  shows "sorted_wrt R xs \<Longrightarrow> sorted_wrt R ys \<Longrightarrow> mset xs = mset ys \<Longrightarrow> xs = ys"
  using antisym
proof (induction xs arbitrary: ys)
  case Nil
  then show ?case by simp
next
  case (Cons x xs)
  from Cons.prems(3) obtain y ys' where ys: "ys = y # ys'" by (cases ys) auto
  have sets: "set (x # xs) = set ys" using Cons.prems(3) by (metis set_mset_mset)
  have "x = y"
  proof (rule ccontr)
    assume ne: "x \<noteq> y"
    with sets ys have "x \<in> set ys'" "y \<in> set xs" by auto
    with Cons.prems(1,2) ys have "R y x" "R x y" by auto
    with Cons.prems(4) sets ys ne show False by auto
  qed
  with Cons.prems ys have "xs = ys'" by (intro Cons.IH) auto
  with \<open>x = y\<close> ys show ?case by simp
qed

lemma mset_kept_entries:
  "mset params' = mset params \<Longrightarrow> mset (kept_entries params') = mset (kept_entries params)"
proof -
  assume "mset params' = mset params"
  then have "mset (filter (\<lambda>(k, v). is_kept v) params') = mset (filter (\<lambda>(k, v). is_kept v) params)"
    by (simp only: mset_filter)
  then show ?thesis unfolding kept_entries_def by (simp only: mset_map)
qed

lemma keys_kept_entries:
  "map fst (kept_entries params) = map fst (filter (\<lambda>(k, v). is_kept v) params)"
  by (simp add: kept_entries_def split_def comp_def)

lemma distinct_kept_keys: "distinct (map fst params) \<Longrightarrow> distinct (map fst (kept_entries params))"
  by (simp add: keys_kept_entries distinct_map_filter)

lemma consistent_on_total:
  "consistent_on cmp keys \<Longrightarrow> a \<in> set keys \<Longrightarrow> b \<in> set keys \<Longrightarrow> cmp a b \<le> 0 \<or> cmp b a \<le> 0"
  unfolding consistent_on_def by blast

lemma consistent_on_trans:
  "consistent_on cmp keys \<Longrightarrow> a \<in> set keys \<Longrightarrow> b \<in> set keys \<Longrightarrow> c \<in> set keys
     \<Longrightarrow> cmp a b \<le> 0 \<Longrightarrow> cmp b c \<le> 0 \<Longrightarrow> cmp a c \<le> 0"
  unfolding consistent_on_def by blast

lemma separatesD:
  "separates cmp keys \<Longrightarrow> a \<in> set keys \<Longrightarrow> b \<in> set keys \<Longrightarrow> cmp a b \<le> 0 \<Longrightarrow> cmp b a \<le> 0
     \<Longrightarrow> a = b"
  unfolding separates_def by blast

lemma sorted_entries:
  assumes "consistent_on cmp (map fst es)"
  shows "sorted_wrt (\<lambda>a b. cmp (fst a) (fst b) \<le> 0) (js_sort (\<lambda>a b. cmp (fst a) (fst b)) es)"
proof -
  have total: "\<forall>a\<in>set es. \<forall>b\<in>set es. cmp (fst a) (fst b) \<le> 0 \<or> cmp (fst b) (fst a) \<le> 0"
  proof (intro ballI)
    fix a b assume "a \<in> set es" "b \<in> set es"
    then have "fst a \<in> set (map fst es)" "fst b \<in> set (map fst es)" by simp_all
    then show "cmp (fst a) (fst b) \<le> 0 \<or> cmp (fst b) (fst a) \<le> 0"
      by (rule consistent_on_total [OF assms])
  qed
  have trans: "\<forall>a\<in>set es. \<forall>b\<in>set es. \<forall>c\<in>set es.
      cmp (fst a) (fst b) \<le> 0 \<and> cmp (fst b) (fst c) \<le> 0 \<longrightarrow> cmp (fst a) (fst c) \<le> 0"
  proof (intro ballI impI)
    fix a b c assume "a \<in> set es" "b \<in> set es" "c \<in> set es"
      and le: "cmp (fst a) (fst b) \<le> 0 \<and> cmp (fst b) (fst c) \<le> 0"
    then have "fst a \<in> set (map fst es)" "fst b \<in> set (map fst es)" "fst c \<in> set (map fst es)"
      by simp_all
    then show "cmp (fst a) (fst c) \<le> 0"
      using le by (intro consistent_on_trans [OF assms, of "fst a" "fst b" "fst c"]) simp_all
  qed
  show ?thesis
    by (rule sorted_js_sort [where A = "set es" and cmp = "\<lambda>a b. cmp (fst a) (fst b)", OF total trans])
       simp
qed

lemma entries_by_key:
  "distinct (map fst es) \<Longrightarrow> a \<in> set es \<Longrightarrow> b \<in> set es \<Longrightarrow> fst a = fst b \<Longrightarrow> a = b"
  by (metis distinct_map inj_onD)

text \<open>Inserting from the right is stable: an entry is put before the first entry that it
  does not come after, so it passes no entry that compares as equal to it.\<close>

lemma ties_insert_by:
  assumes cons: "consistent_on cmp keys" and k: "k \<in> set keys" and x: "fst x \<in> set keys"
  shows "fst ` set es \<subseteq> set keys \<Longrightarrow>
         ties cmp k (insert_by (\<lambda>a b. cmp (fst a) (fst b)) x es)
           = (if cmp (fst x) k \<le> 0 \<and> cmp k (fst x) \<le> 0 then x # ties cmp k es
              else ties cmp k es)"
proof (induction es)
  case Nil
  then show ?case by (simp add: ties_def)
next
  case (Cons y ys)
  from Cons.prems have y: "fst y \<in> set keys" and ys: "fst ` set ys \<subseteq> set keys" by auto
  note IH = Cons.IH [OF ys]
  show ?case
  proof (cases "cmp (fst x) (fst y) \<le> 0")
    case True
    then show ?thesis by (simp add: ties_def)
  next
    case False
    have "\<not> (cmp (fst y) k \<le> 0 \<and> cmp k (fst y) \<le> 0)"
      if tx: "cmp (fst x) k \<le> 0 \<and> cmp k (fst x) \<le> 0"
    proof
      assume ty: "cmp (fst y) k \<le> 0 \<and> cmp k (fst y) \<le> 0"
      from tx ty have "cmp (fst x) k \<le> 0" "cmp k (fst y) \<le> 0" by simp_all
      with consistent_on_trans [OF cons x k y] have "cmp (fst x) (fst y) \<le> 0" by blast
      with False show False ..
    qed
    with False IH show ?thesis by (auto simp add: ties_def)
  qed
qed

lemma ties_js_sort:
  assumes cons: "consistent_on cmp keys" and k: "k \<in> set keys"
  shows "fst ` set es \<subseteq> set keys \<Longrightarrow>
         ties cmp k (js_sort (\<lambda>a b. cmp (fst a) (fst b)) es) = ties cmp k es"
proof (induction es)
  case Nil
  then show ?case by (simp add: js_sort_def)
next
  case (Cons x xs)
  from Cons.prems have x: "fst x \<in> set keys" and xs: "fst ` set xs \<subseteq> set keys" by auto
  have s: "fst ` set (js_sort (\<lambda>a b. cmp (fst a) (fst b)) xs) \<subseteq> set keys"
    using xs by (simp add: set_js_sort)
  have "js_sort (\<lambda>a b. cmp (fst a) (fst b)) (x # xs)
          = insert_by (\<lambda>a b. cmp (fst a) (fst b)) x (js_sort (\<lambda>a b. cmp (fst a) (fst b)) xs)"
    by (simp add: js_sort_def)
  then have "ties cmp k (js_sort (\<lambda>a b. cmp (fst a) (fst b)) (x # xs))
          = (if cmp (fst x) k \<le> 0 \<and> cmp k (fst x) \<le> 0
             then x # ties cmp k (js_sort (\<lambda>a b. cmp (fst a) (fst b)) xs)
             else ties cmp k (js_sort (\<lambda>a b. cmp (fst a) (fst b)) xs))"
    using ties_insert_by [OF cons k x s] by simp
  with Cons.IH [OF xs] show ?case by (simp add: ties_def)
qed

lemma stable_sorting_js_sort:
  assumes "consistent_on cmp (map fst es)"
  shows "stable_sorting cmp es (js_sort (\<lambda>a b. cmp (fst a) (fst b)) es)"
  unfolding stable_sorting_def
proof (intro conjI ballI)
  show "mset (js_sort (\<lambda>a b. cmp (fst a) (fst b)) es) = mset es" by (rule mset_js_sort)
  show "sorted_wrt (\<lambda>a b. cmp (fst a) (fst b) \<le> 0) (js_sort (\<lambda>a b. cmp (fst a) (fst b)) es)"
    using assms by (rule sorted_entries)
next
  fix k assume "k \<in> set (map fst es)"
  with assms show "ties cmp k (js_sort (\<lambda>a b. cmp (fst a) (fst b)) es) = ties cmp k es"
    by (rule ties_js_sort) simp
qed

text \<open>Two sorted lists with the same ties are the same list.\<close>

lemma sorted_same_ties:
  assumes refl: "\<forall>k\<in>K. cmp k k \<le> (0::int)"
  shows "fst ` set xs \<subseteq> K \<Longrightarrow> fst ` set ys \<subseteq> K
         \<Longrightarrow> sorted_wrt (\<lambda>a b. cmp (fst a) (fst b) \<le> 0) xs
         \<Longrightarrow> sorted_wrt (\<lambda>a b. cmp (fst a) (fst b) \<le> 0) ys
         \<Longrightarrow> \<forall>k\<in>K. ties cmp k xs = ties cmp k ys \<Longrightarrow> xs = ys"
proof (induction xs arbitrary: ys)
  case Nil
  show ?case
  proof (cases ys)
    case Nil
    then show ?thesis by simp
  next
    case (Cons y ys')
    with Nil.prems(2) have y: "fst y \<in> K" by auto
    with refl have "cmp (fst y) (fst y) \<le> 0" by blast
    with Cons have "ties cmp (fst y) ys \<noteq> []" by (simp add: ties_def)
    moreover from Nil.prems(5) y have "ties cmp (fst y) ys = []" by (simp add: ties_def)
    ultimately show ?thesis by simp
  qed
next
  case (Cons x xs')
  from Cons.prems(1) have x: "fst x \<in> K" by auto
  with refl have rx: "cmp (fst x) (fst x) \<le> 0" by blast
  have tx: "ties cmp (fst x) (x # xs') = x # ties cmp (fst x) xs'"
    using rx by (simp add: ties_def)
  from Cons.prems(5) x have same_x: "ties cmp (fst x) (x # xs') = ties cmp (fst x) ys" by blast
  with tx have "ys \<noteq> []" by (auto simp add: ties_def)
  then obtain y ys' where ys: "ys = y # ys'" by (cases ys) auto
  with Cons.prems(2) have y: "fst y \<in> K" by auto
  with refl have ry: "cmp (fst y) (fst y) \<le> 0" by blast
  have "x \<in> set (ties cmp (fst x) ys)" using tx same_x by (metis list.set_intros(1))
  then have "x \<in> set ys" by (simp add: ties_def)
  with ys Cons.prems(4) ry have yx: "cmp (fst y) (fst x) \<le> 0" by auto
  from Cons.prems(5) y have same_y: "ties cmp (fst y) (x # xs') = ties cmp (fst y) ys" by blast
  have "y \<in> set (ties cmp (fst y) ys)" using ys ry by (simp add: ties_def)
  with same_y have "y \<in> set (ties cmp (fst y) (x # xs'))" by simp
  then have "y \<in> set (x # xs')" unfolding ties_def set_filter by blast
  with Cons.prems(3) rx have xy: "cmp (fst x) (fst y) \<le> 0" by auto
  from ys xy yx have "ties cmp (fst x) ys = y # ties cmp (fst x) ys'" by (simp add: ties_def)
  with tx same_x have eq: "x = y" by simp
  have "xs' = ys'"
  proof (rule Cons.IH)
    show "fst ` set xs' \<subseteq> K" using Cons.prems(1) by auto
    show "fst ` set ys' \<subseteq> K" using Cons.prems(2) ys by auto
    show "sorted_wrt (\<lambda>a b. cmp (fst a) (fst b) \<le> 0) xs'" using Cons.prems(3) by simp
    show "sorted_wrt (\<lambda>a b. cmp (fst a) (fst b) \<le> 0) ys'" using Cons.prems(4) ys by simp
    show "\<forall>k\<in>K. ties cmp k xs' = ties cmp k ys'"
    proof
      fix k assume "k \<in> K"
      with Cons.prems(5) have "ties cmp k (x # xs') = ties cmp k (y # ys')" using ys by blast
      with eq show "ties cmp k xs' = ties cmp k ys'" by (simp add: ties_def split: if_splits)
    qed
  qed
  with eq ys show ?case by simp
qed

lemma stable_sorting_unique:
  assumes cons: "consistent_on cmp (map fst es)"
    and a: "stable_sorting cmp es xs" and b: "stable_sorting cmp es ys"
  shows "xs = ys"
proof (rule sorted_same_ties [where K = "set (map fst es)" and cmp = cmp])
  show "\<forall>k\<in>set (map fst es). cmp k k \<le> 0"
    using consistent_on_total [OF cons] by blast
  from a have "set xs = set es" unfolding stable_sorting_def by (metis set_mset_mset)
  then show "fst ` set xs \<subseteq> set (map fst es)" by simp
  from b have "set ys = set es" unfolding stable_sorting_def by (metis set_mset_mset)
  then show "fst ` set ys \<subseteq> set (map fst es)" by simp
  show "sorted_wrt (\<lambda>a b. cmp (fst a) (fst b) \<le> 0) xs" using a by (simp add: stable_sorting_def)
  show "sorted_wrt (\<lambda>a b. cmp (fst a) (fst b) \<le> 0) ys" using b by (simp add: stable_sorting_def)
  show "\<forall>k\<in>set (map fst es). ties cmp k xs = ties cmp k ys"
    using a b unfolding stable_sorting_def by simp
qed

text \<open>
  Claim C3, amended. \<open>md5Signature\<close> drops the entries whose value is \<open>undefined\<close> or
  \<open>null\<close>, sorts the others by key with \<open>localeCompare\<close>, joins them as \<open>key=value\<close>
  with \<open>&\<close> and takes the lower-case hex MD5 of the text. Where \<open>localeCompare\<close> is a
  total preorder on the kept keys (as a collation is), the kept entries have exactly one
  stable sorting by key for \<open>localeCompare\<close>, and the signature is the digest of the
  text of that sorting. The signature is the same for every reordering of the parameters
  when their keys are distinct and no two different kept keys collate as equal. The text
  is the one sorted by ordinal comparison when the keys are distinct and \<open>localeCompare\<close>
  agrees with the ordinal order on the kept keys.
\<close>

theorem signature_sorts_by_localeCompare:
  assumes cons: "consistent_on (localeCompare P) (map fst (kept_entries params))"
  shows "(\<exists>es. stable_sorting (localeCompare P) (kept_entries params) es)
       \<and> (\<forall>es. stable_sorting (localeCompare P) (kept_entries params) es
              \<longrightarrow> md5Signature P params
                    = hex_lower (md5 P (utf8_encode (join ''&'' (map pair_text es)))))
       \<and> (distinct (map fst params)
            \<and> separates (localeCompare P) (map fst (kept_entries params))
            \<and> mset params' = mset params
          \<longrightarrow> md5Signature P params' = md5Signature P params)
       \<and> (distinct (map fst params)
            \<and> (\<forall>a\<in>set (map fst (kept_entries params)). \<forall>b\<in>set (map fst (kept_entries params)).
                  localeCompare P a b \<le> 0 \<longleftrightarrow> a \<le> b)
          \<longrightarrow> signText P params = spec_signText params)"
proof -
  define cmp :: "string \<times> json \<Rightarrow> string \<times> json \<Rightarrow> int"
    where "cmp = (\<lambda>a b. localeCompare P (fst a) (fst b))"
  define E where "E = kept_entries params"
  have sortedE: "sorted_wrt (\<lambda>a b. cmp a b \<le> 0) (js_sort cmp E)"
    unfolding cmp_def E_def by (rule sorted_entries [OF cons])
  have stable: "stable_sorting (localeCompare P) E (js_sort cmp E)"
    unfolding cmp_def E_def by (rule stable_sorting_js_sort [OF cons])
  have c1: "\<exists>es. stable_sorting (localeCompare P) (kept_entries params) es"
    using stable unfolding E_def by blast
  have c2: "\<forall>es. stable_sorting (localeCompare P) (kept_entries params) es
              \<longrightarrow> md5Signature P params
                    = hex_lower (md5 P (utf8_encode (join ''&'' (map pair_text es))))"
  proof (intro allI impI)
    fix es assume "stable_sorting (localeCompare P) (kept_entries params) es"
    with cons have "es = js_sort cmp E"
      using stable unfolding E_def by (rule stable_sorting_unique)
    then show "md5Signature P params
                 = hex_lower (md5 P (utf8_encode (join ''&'' (map pair_text es))))"
      by (simp add: md5Signature_def md5Hex_def signText_def cmp_def E_def)
  qed
  have c3: "distinct (map fst params)
            \<and> separates (localeCompare P) (map fst (kept_entries params))
            \<and> mset params' = mset params
          \<longrightarrow> md5Signature P params' = md5Signature P params"
  proof (intro impI)
    assume h: "distinct (map fst params)
            \<and> separates (localeCompare P) (map fst (kept_entries params))
            \<and> mset params' = mset params"
    define E' where "E' = kept_entries params'"
    have msetE: "mset E' = mset E"
      unfolding E'_def E_def using h by (intro mset_kept_entries) simp
    then have setE: "set E' = set E" by (rule mset_eq_setD)
    then have "set (map fst E') = set (map fst E)" by simp
    then have "consistent_on (localeCompare P) (map fst E') = consistent_on (localeCompare P) (map fst E)"
      by (simp only: consistent_on_def)
    with cons have "consistent_on (localeCompare P) (map fst E')" by (simp add: E_def)
    then have sortedE': "sorted_wrt (\<lambda>a b. cmp a b \<le> 0) (js_sort cmp E')"
      unfolding cmp_def by (rule sorted_entries)
    have dist: "distinct (map fst E)" unfolding E_def using h by (intro distinct_kept_keys) simp
    have anti: "\<forall>a\<in>set (js_sort cmp E'). \<forall>b\<in>set (js_sort cmp E').
                  cmp a b \<le> 0 \<and> cmp b a \<le> 0 \<longrightarrow> a = b"
    proof (intro ballI impI)
      fix a b assume ab: "a \<in> set (js_sort cmp E')" "b \<in> set (js_sort cmp E')"
        and le: "cmp a b \<le> 0 \<and> cmp b a \<le> 0"
      from ab setE have in_E: "a \<in> set E" "b \<in> set E" by (simp_all add: set_js_sort)
      then have "fst a \<in> set (map fst E)" "fst b \<in> set (map fst E)" by simp_all
      moreover from h have "separates (localeCompare P) (map fst E)" by (simp add: E_def)
      ultimately have "fst a = fst b"
        using le separatesD [of "localeCompare P" "map fst E" "fst a" "fst b"]
        unfolding cmp_def by blast
      with dist in_E show "a = b" by (rule entries_by_key)
    qed
    have "js_sort cmp E' = js_sort cmp E"
      by (rule sorted_wrt_unique [OF anti sortedE' sortedE]) (simp add: mset_js_sort msetE)
    then show "md5Signature P params' = md5Signature P params"
      by (simp add: md5Signature_def signText_def cmp_def E_def E'_def)
  qed
  have c4: "distinct (map fst params)
            \<and> (\<forall>a\<in>set (map fst (kept_entries params)). \<forall>b\<in>set (map fst (kept_entries params)).
                  localeCompare P a b \<le> 0 \<longleftrightarrow> a \<le> b)
          \<longrightarrow> signText P params = spec_signText params"
  proof (intro impI)
    assume h: "distinct (map fst params)
            \<and> (\<forall>a\<in>set (map fst (kept_entries params)). \<forall>b\<in>set (map fst (kept_entries params)).
                  localeCompare P a b \<le> 0 \<longleftrightarrow> a \<le> b)"
    have dist: "distinct (map fst E)" unfolding E_def using h by (intro distinct_kept_keys) simp
    have agree: "cmp a b \<le> 0 \<longleftrightarrow> fst a \<le> fst b" if "a \<in> set E" "b \<in> set E" for a b
    proof -
      from that have "fst a \<in> set (map fst E)" "fst b \<in> set (map fst E)" by simp_all
      moreover from h have "\<forall>a\<in>set (map fst E). \<forall>b\<in>set (map fst E).
                  localeCompare P a b \<le> 0 \<longleftrightarrow> a \<le> b"
        unfolding E_def by (rule conjunct2)
      ultimately show ?thesis unfolding cmp_def by blast
    qed
    have s1: "sorted_wrt (\<lambda>a b. fst a \<le> fst b) (js_sort cmp E)"
      by (rule sorted_wrt_mono_rel [OF _ sortedE]) (simp add: agree set_js_sort)
    have s2: "sorted_wrt (\<lambda>a b. fst a \<le> fst b) (sort_key fst E)"
      using sorted_sort_key [of fst E] by (simp only: sorted_map)
    have anti: "\<forall>a\<in>set (js_sort cmp E). \<forall>b\<in>set (js_sort cmp E).
                  fst a \<le> fst b \<and> fst b \<le> fst a \<longrightarrow> a = b"
    proof (intro ballI impI)
      fix a b assume ab: "a \<in> set (js_sort cmp E)" "b \<in> set (js_sort cmp E)"
        and le: "fst a \<le> fst b \<and> fst b \<le> fst a"
      from ab have in_E: "a \<in> set E" "b \<in> set E" by (simp_all add: set_js_sort)
      from le have "fst a = fst b" by (rule_tac order.antisym) simp_all
      with dist in_E show "a = b" by (rule entries_by_key)
    qed
    have "js_sort cmp E = sort_key fst E"
      by (rule sorted_wrt_unique [OF anti s1 s2]) (simp add: mset_js_sort)
    then show "signText P params = spec_signText params"
      by (simp add: signText_def spec_signText_def cmp_def E_def)
  qed
  from c1 c2 c3 c4 show ?thesis by (intro conjI)
qed

text \<open>With the comparator for ASCII letters the sorting of the sample parameters is
  \<open>AppKey\<close>, \<open>fileId\<close>, \<open>Timestamp\<close>, and the signature of the reversed parameters is
  the signature of the parameters; with a platform whose \<open>localeCompare\<close> is the ordinal
  comparison the text hashed is the one of the specification.\<close>

theorem signature_sorts_by_localeCompare_witness:
  "md5Signature letters_platform sample_params
     = hex_lower (md5 letters_platform (utf8_encode ''AppKey=600100422&fileId=123&Timestamp=17''))
   \<and> md5Signature letters_platform (rev sample_params) = md5Signature letters_platform sample_params
   \<and> signText sample_platform sample_params = spec_signText sample_params"
proof -
  have keys: "map fst (kept_entries sample_params) = [''fileId'', ''Timestamp'', ''AppKey'']"
    by code_simp
  have c1: "consistent_on (localeCompare letters_platform) (map fst (kept_entries sample_params))"
    unfolding keys by code_simp
  have s1: "separates (localeCompare letters_platform) (map fst (kept_entries sample_params))"
    unfolding keys by code_simp
  have d: "distinct (map fst sample_params)" by (simp add: sample_params_def)
  have m: "mset (rev sample_params) = mset sample_params" by simp
  have c2: "consistent_on (localeCompare sample_platform) (map fst (kept_entries sample_params))"
    unfolding keys by code_simp
  have o: "\<forall>a\<in>set (map fst (kept_entries sample_params)).
             \<forall>b\<in>set (map fst (kept_entries sample_params)).
               localeCompare sample_platform a b \<le> 0 \<longleftrightarrow> a \<le> b"
    unfolding keys by code_simp
  have st: "stable_sorting (localeCompare letters_platform) (kept_entries sample_params)
              [(''AppKey'', JStr ''600100422''), (''fileId'', JNum 123), (''Timestamp'', JStr ''17'')]"
    by code_simp
  have tx: "join ''&'' (map pair_text
              [(''AppKey'', JStr ''600100422''), (''fileId'', JNum 123), (''Timestamp'', JStr ''17'')])
            = ''AppKey=600100422&fileId=123&Timestamp=17''"
    by code_simp
  from signature_sorts_by_localeCompare [OF c1, of "rev sample_params"] st
  have "md5Signature letters_platform sample_params
     = hex_lower (md5 letters_platform (utf8_encode (join ''&'' (map pair_text
              [(''AppKey'', JStr ''600100422''), (''fileId'', JNum 123), (''Timestamp'', JStr ''17'')]))))"
    by blast
  then have "md5Signature letters_platform sample_params
     = hex_lower (md5 letters_platform (utf8_encode ''AppKey=600100422&fileId=123&Timestamp=17''))"
    by (simp only: tx)
  moreover from signature_sorts_by_localeCompare [OF c1, of "rev sample_params"] s1 d m
  have "md5Signature letters_platform (rev sample_params) = md5Signature letters_platform sample_params"
    by blast
  moreover from signature_sorts_by_localeCompare [OF c2, of "rev sample_params"] d o
  have "signText sample_platform sample_params = spec_signText sample_params"
    by blast
  ultimately show ?thesis by blast
qed

text \<open>The claim as stated fails in two ways. Where collation and code unit order differ:
  the parameters signed for \<open>getFileDownloadUrl\<close> have the keys \<open>fileId\<close>,
  \<open>Timestamp\<close> and \<open>AppKey\<close>; collation puts \<open>fileId\<close> before \<open>Timestamp\<close>, the
  ordinal order puts the upper-case \<open>T\<close> first, so the text that is hashed is not the
  ordinal one. And where two different keys collate as equal: the keys \<open>k\<close> and \<open>k\<close>
  followed by a soft hyphen are left by the sort in the order of the input, so the two
  orders of the same two parameters give two texts to hash.\<close>

theorem signature_text_is_not_ordinal_nor_order_free:
  "signText letters_platform (signParams ''GET'' [(''fileId'', ''123'')] [] ''1700000000000'')
     = ''AppKey=600100422&fileId=123&Timestamp=1700000000000''
   \<and> spec_signText (signParams ''GET'' [(''fileId'', ''123'')] [] ''1700000000000'')
     = ''AppKey=600100422&Timestamp=1700000000000&fileId=123''
   \<and> localeCompare collation_platform ''k'' (''k'' @ [soft_hyphen]) = 0
   \<and> signText collation_platform tied_params = ''k=1&k'' @ [soft_hyphen] @ ''=2''
   \<and> signText collation_platform (rev tied_params) = ''k'' @ [soft_hyphen] @ ''=2&k=1''"
  by code_simp

section \<open>The deep search\<close>

lemma first_match_append:
  "first_match m (xs @ ys) = (case first_match m xs of Some r \<Rightarrow> Some r | None \<Rightarrow> first_match m ys)"
  by (induction m xs rule: first_match.induct) (auto split: option.splits)

lemma scan_entries_eq:
  "scan_entries m es stack =
     (case first_match m es of Some r \<Rightarrow> Inl r | None \<Rightarrow> Inr (push_items (map snd es) stack))"
  by (induction m es stack rule: scan_entries.induct)
     (auto simp: push_items_def split: option.splits)

lemma deep_search_visit_order:
  "deep_search m h stack visited
     = first_match m (concat (map (entries_of h) (visit_order h stack visited)))"
proof (induction h stack visited rule: visit_order.induct)
  case (1 h visited)
  show ?case by (simp add: deep_search.simps visit_order.simps)
next
  case (2 h current stack visited)
  show ?case
  proof (cases current)
    case (VRef a)
    show ?thesis
    proof (cases "a \<in> set visited")
      case True
      with VRef "2.IH"(6) show ?thesis by (simp add: deep_search.simps visit_order.simps)
    next
      case False
      show ?thesis
      proof (cases "lookup h a")
        case None
        with VRef False "2.IH"(7) show ?thesis by (simp add: deep_search.simps visit_order.simps)
      next
        case (Some n)
        note IH = "2.IH"(8) [OF VRef False Some]
        show ?thesis
        proof (cases n)
          case (ArrNode items)
          with VRef False Some IH show ?thesis
            by (simp add: deep_search.simps visit_order.simps entries_of_def node_values_def)
        next
          case (ObjNode entries)
          with VRef False Some IH show ?thesis
            by (simp add: deep_search.simps visit_order.simps entries_of_def node_values_def
                  scan_entries_eq first_match_append split: option.splits)
        qed
      qed
    qed
  qed (use "2.IH" in \<open>simp_all add: deep_search.simps visit_order.simps\<close>)
qed

lemma visit_order_fresh:
  "b \<in> set (visit_order h stack visited) \<Longrightarrow> b < length h \<and> b \<notin> set visited"
proof (induction h stack visited rule: visit_order.induct)
  case (1 h visited)
  then show ?case by (simp add: visit_order.simps)
next
  case (2 h current stack visited)
  show ?case
  proof (cases current)
    case (VRef a)
    show ?thesis
    proof (cases "a \<in> set visited")
      case True
      with VRef "2.IH"(6) "2.prems" show ?thesis by (simp add: visit_order.simps)
    next
      case False
      show ?thesis
      proof (cases "lookup h a")
        case None
        with VRef False "2.IH"(7) "2.prems" show ?thesis by (simp add: visit_order.simps)
      next
        case (Some n)
        with VRef False "2.prems"
        have "b = a \<or> b \<in> set (visit_order h (push_items (node_values n) stack) (a # visited))"
          by (simp add: visit_order.simps)
        with "2.IH"(8) [OF VRef False Some] False Some show ?thesis
          by (auto simp: lookup_def split: if_splits)
      qed
    qed
  qed (use "2.IH" "2.prems" in \<open>simp_all add: visit_order.simps\<close>)
qed

lemma distinct_visit_order: "distinct (visit_order h stack visited)"
proof (induction h stack visited rule: visit_order.induct)
  case (1 h visited)
  then show ?case by (simp add: visit_order.simps)
next
  case (2 h current stack visited)
  show ?case
  proof (cases current)
    case (VRef a)
    show ?thesis
    proof (cases "a \<in> set visited")
      case True
      with VRef "2.IH"(6) show ?thesis by (simp add: visit_order.simps)
    next
      case False
      show ?thesis
      proof (cases "lookup h a")
        case None
        with VRef False "2.IH"(7) show ?thesis by (simp add: visit_order.simps)
      next
        case (Some n)
        have "a \<notin> set (visit_order h (push_items (node_values n) stack) (a # visited))"
          using visit_order_fresh [of a h "push_items (node_values n) stack" "a # visited"] by auto
        with "2.IH"(8) [OF VRef False Some] VRef False Some show ?thesis
          by (simp add: visit_order.simps)
      qed
    qed
  qed (use "2.IH" in \<open>simp_all add: visit_order.simps\<close>)
qed

lemma refs_of_simps [simp]:
  "refs_of [] = {}"
  "refs_of (VRef a # stack) = insert a (refs_of stack)"
  "\<not> is_ref v \<Longrightarrow> refs_of (v # stack) = refs_of stack"
  by (auto simp: refs_of_def elim: is_ref.elims)

lemma refs_of_push_items:
  "refs_of (push_items vals stack) = {b. VRef b \<in> set vals} \<union> refs_of stack"
  by (auto simp: refs_of_def push_items_def)

lemma reach_from_skip:
  "a \<in> V \<or> \<not> a < length h \<Longrightarrow> reach_from h (insert a S) V = reach_from h S V"
  by (auto simp: reach_from_def)

lemma edges_avoiding_mono: "edges_avoiding h (insert a V) \<subseteq> edges_avoiding h V"
  by (auto simp: edges_avoiding_def)

lemma reach_from_step:
  assumes a: "a < length h" "a \<notin> V"
  defines "C \<equiv> {b. VRef b \<in> set (node_values (h ! a))}"
  shows "insert a (reach_from h (C \<union> S) (insert a V)) = reach_from h (insert a S) V"
proof (intro set_eqI iffI)
  fix x assume "x \<in> insert a (reach_from h (C \<union> S) (insert a V))"
  then consider "x = a" | "x \<in> reach_from h (C \<union> S) (insert a V)" by blast
  then show "x \<in> reach_from h (insert a S) V"
  proof cases
    case 1
    with a show ?thesis by (auto simp: reach_from_def)
  next
    case 2
    then obtain s where s: "s \<in> C \<union> S" "s \<notin> insert a V" "s < length h"
        "(s, x) \<in> (edges_avoiding h (insert a V))\<^sup>*"
      by (auto simp: reach_from_def)
    from s(4) have sx: "(s, x) \<in> (edges_avoiding h V)\<^sup>*"
      using rtrancl_mono [OF edges_avoiding_mono] by blast
    show ?thesis
    proof (cases "s \<in> S")
      case True
      with s sx show ?thesis by (auto simp: reach_from_def)
    next
      case False
      with s have "s \<in> C" by simp
      with a s have "(a, s) \<in> edges_avoiding h V"
        by (auto simp: edges_avoiding_def edges_def C_def)
      then have "(a, x) \<in> (edges_avoiding h V)\<^sup>*" using sx by (rule converse_rtrancl_into_rtrancl)
      with a show ?thesis by (auto simp: reach_from_def)
    qed
  qed
next
  fix x assume "x \<in> reach_from h (insert a S) V"
  then obtain s where s: "s \<in> insert a S" "s \<notin> V" "s < length h"
      "(s, x) \<in> (edges_avoiding h V)\<^sup>*"
    by (auto simp: reach_from_def)
  from s(4) have "x = a \<or> x \<in> reach_from h (C \<union> S) (insert a V)"
  proof (induction rule: rtrancl_induct)
    case base
    show ?case
    proof (cases "s = a")
      case True
      then show ?thesis by simp
    next
      case False
      with s have "s \<in> S" "s \<notin> insert a V" by simp_all
      with s(3) have "s \<in> reach_from h (C \<union> S) (insert a V)" by (auto simp: reach_from_def)
      then show ?thesis by simp
    qed
  next
    case (step y z)
    from step(2) have yz: "(y, z) \<in> edges h" "y \<notin> V" "z \<notin> V"
      by (auto simp: edges_avoiding_def)
    show ?case
    proof (cases "z = a")
      case True
      then show ?thesis by simp
    next
      case za: False
      show ?thesis
      proof (cases "y = a")
        case True
        with yz have "z \<in> C" "z < length h" by (auto simp: edges_def C_def)
        with za yz have "z \<in> reach_from h (C \<union> S) (insert a V)"
          by (auto simp: reach_from_def)
        then show ?thesis by simp
      next
        case False
        with step(3) obtain s' where s': "s' \<in> C \<union> S" "s' \<notin> insert a V" "s' < length h"
            "(s', y) \<in> (edges_avoiding h (insert a V))\<^sup>*"
          by (auto simp: reach_from_def)
        from False za yz have "(y, z) \<in> edges_avoiding h (insert a V)"
          by (auto simp: edges_avoiding_def)
        with s'(4) have "(s', z) \<in> (edges_avoiding h (insert a V))\<^sup>*"
          by (rule rtrancl_into_rtrancl)
        with s' have "z \<in> reach_from h (C \<union> S) (insert a V)"
          unfolding reach_from_def by blast
        then show ?thesis by simp
      qed
    qed
  qed
  then show "x \<in> insert a (reach_from h (C \<union> S) (insert a V))" by blast
qed

lemma set_visit_order:
  "set (visit_order h stack visited) = reach_from h (refs_of stack) (set visited)"
proof (induction h stack visited rule: visit_order.induct)
  case (1 h visited)
  show ?case by (simp add: visit_order.simps reach_from_def)
next
  case (2 h current stack visited)
  show ?case
  proof (cases current)
    case (VRef a)
    show ?thesis
    proof (cases "a \<in> set visited")
      case True
      with VRef "2.IH"(6) show ?thesis by (simp add: visit_order.simps reach_from_skip)
    next
      case False
      show ?thesis
      proof (cases "lookup h a")
        case None
        then have "\<not> a < length h" by (simp add: lookup_def split: if_splits)
        with None VRef False "2.IH"(7) show ?thesis
          by (simp add: visit_order.simps reach_from_skip)
      next
        case (Some n)
        then have a: "a < length h" and n: "n = h ! a" by (auto simp: lookup_def split: if_splits)
        from "2.IH"(8) [OF VRef False Some]
        have "set (visit_order h (push_items (node_values n) stack) (a # visited))
               = reach_from h ({b. VRef b \<in> set (node_values (h ! a))} \<union> refs_of stack)
                   (insert a (set visited))"
          by (simp add: refs_of_push_items n)
        with reach_from_step [OF a False, of "refs_of stack"] VRef False Some
        show ?thesis by (simp add: visit_order.simps)
      qed
    qed
  qed (use "2.IH" in \<open>simp_all add: visit_order.simps\<close>)
qed

lemma edges_avoiding_empty: "edges_avoiding h {} = edges h"
  by (auto simp: edges_avoiding_def)

lemma visit_order_reachable: "set (visit_order h [VRef a] []) = reachable h a"
  by (auto simp: set_visit_order reach_from_def reachable_def edges_avoiding_empty)

lemma first_match_None_iff:
  "first_match m es = None \<longleftrightarrow> (\<forall>e\<in>set es. m (fst e) (snd e) = None)"
  by (induction m es rule: first_match.induct) (auto split: option.splits)

lemma string_match_nonempty: "string_match objStr wanted k v = Some t \<Longrightarrow> t \<noteq> []"
  by (auto simp: string_match_def Let_def split: if_splits)

lemma first_match_Some: "first_match m es = Some r \<Longrightarrow> \<exists>e\<in>set es. m (fst e) (snd e) = Some r"
  by (induction m es rule: first_match.induct) (auto split: option.splits)

text \<open>
  Claim C8. \<open>getDeepString\<close> and \<open>getDeepArray\<close> are total functions on every heap,
  cyclic or not: the loop is defined with its termination proof, which rests on the set of
  visited objects. The traversal takes each object at most once and takes exactly the
  objects that can be reached from the payload. The result is the first match among the
  entries of the objects in traversal order, an entry matching when its key, lower-cased,
  is one of the wanted names, lower-cased, and its value is usable (a string that is not
  empty after trimming, for \<open>getDeepString\<close>; an array, for \<open>getDeepArray\<close>). So a match is
  returned exactly when a reachable object has a matching entry.
\<close>

theorem deep_search_first_match_in_traversal_order:
  "getDeepString objStr h payload keys =
     (if is_ref payload
      then case first_match (string_match objStr (wanted_of keys))
                  (concat (map (entries_of h) (visit_order h [payload] []))) of
             None \<Rightarrow> [] | Some text \<Rightarrow> text
      else [])
   \<and> getDeepArray h payload keys =
     (if is_ref payload
      then first_match (array_match h (wanted_of keys))
             (concat (map (entries_of h) (visit_order h [payload] [])))
      else None)
   \<and> distinct (visit_order h [payload] [])
   \<and> set (visit_order h [VRef a] []) = reachable h a
   \<and> (getDeepString objStr h (VRef a) keys \<noteq> [] \<longleftrightarrow>
        (\<exists>b\<in>reachable h a. \<exists>e\<in>set (entries_of h b).
           string_match objStr (wanted_of keys) (fst e) (snd e) \<noteq> None))
   \<and> (getDeepArray h (VRef a) keys \<noteq> None \<longleftrightarrow>
        (\<exists>b\<in>reachable h a. \<exists>e\<in>set (entries_of h b).
           array_match h (wanted_of keys) (fst e) (snd e) \<noteq> None))"
proof (intro conjI)
  show "getDeepString objStr h payload keys =
     (if is_ref payload
      then case first_match (string_match objStr (wanted_of keys))
                  (concat (map (entries_of h) (visit_order h [payload] []))) of
             None \<Rightarrow> [] | Some text \<Rightarrow> text
      else [])"
    by (simp add: getDeepString_def deep_search_visit_order)
  show "getDeepArray h payload keys =
     (if is_ref payload
      then first_match (array_match h (wanted_of keys))
             (concat (map (entries_of h) (visit_order h [payload] [])))
      else None)"
    by (simp add: getDeepArray_def deep_search_visit_order)
  show "distinct (visit_order h [payload] [])" by (rule distinct_visit_order)
  show "set (visit_order h [VRef a] []) = reachable h a" by (rule visit_order_reachable)
  have found: "first_match m (concat (map (entries_of h) (visit_order h [VRef a] []))) \<noteq> None
      \<longleftrightarrow> (\<exists>b\<in>reachable h a. \<exists>e\<in>set (entries_of h b). m (fst e) (snd e) \<noteq> None)"
    for m :: "string \<Rightarrow> val \<Rightarrow> 'r option"
    using visit_order_reachable [of h a] by (auto simp: first_match_None_iff)
  have "getDeepString objStr h (VRef a) keys \<noteq> [] \<longleftrightarrow>
      first_match (string_match objStr (wanted_of keys))
        (concat (map (entries_of h) (visit_order h [VRef a] []))) \<noteq> None"
    using first_match_Some [of "string_match objStr (wanted_of keys)"] string_match_nonempty
    by (fastforce simp: getDeepString_def deep_search_visit_order split: option.splits)
  then show "getDeepString objStr h (VRef a) keys \<noteq> [] \<longleftrightarrow>
        (\<exists>b\<in>reachable h a. \<exists>e\<in>set (entries_of h b).
           string_match objStr (wanted_of keys) (fst e) (snd e) \<noteq> None)"
    by (simp only: found)
  show "getDeepArray h (VRef a) keys \<noteq> None \<longleftrightarrow>
        (\<exists>b\<in>reachable h a. \<exists>e\<in>set (entries_of h b).
           array_match h (wanted_of keys) (fst e) (snd e) \<noteq> None)"
    using found [of "array_match h (wanted_of keys)"]
    by (simp add: getDeepArray_def deep_search_visit_order)
qed

text \<open>On the cyclic graph the search ends. The traversal goes from object 0 to the array
  pushed last, then to object 2, and only then to object 3, so the share id found is the
  one of object 2 and not the one of object 3; the blank \<open>ShareID\<close> of object 0 is not
  usable.\<close>

theorem deep_search_first_match_in_traversal_order_witness:
  "visit_order cyclic_heap [VRef 0] [] = [0, 1, 2, 3]
   \<and> getDeepString plain_objStr cyclic_heap (VRef 0) [''shareId'', ''shareID''] = ''abc''
   \<and> getDeepArray cyclic_heap (VRef 0) [''fileList'', ''files''] = Some (VRef 1)"
proof -
  have order: "visit_order cyclic_heap [VRef 0] [] = [0, 1, 2, 3]" by code_simp
  have s: "(case first_match (string_match plain_objStr (wanted_of [''shareId'', ''shareID'']))
                  (concat (map (entries_of cyclic_heap) [0, 1, 2, 3])) of
             None \<Rightarrow> [] | Some text \<Rightarrow> text) = ''abc''"
    by code_simp
  have a: "first_match (array_match cyclic_heap (wanted_of [''fileList'', ''files'']))
             (concat (map (entries_of cyclic_heap) [0, 1, 2, 3])) = Some (VRef 1)"
    by code_simp
  from deep_search_first_match_in_traversal_order
         [of plain_objStr cyclic_heap "VRef 0" "[''shareId'', ''shareID'']" 0]
  have "getDeepString plain_objStr cyclic_heap (VRef 0) [''shareId'', ''shareID''] = ''abc''"
    unfolding order s by simp
  moreover from deep_search_first_match_in_traversal_order
         [of plain_objStr cyclic_heap "VRef 0" "[''fileList'', ''files'']" 0]
  have "getDeepArray cyclic_heap (VRef 0) [''fileList'', ''files''] = Some (VRef 1)"
    unfolding order a by simp
  ultimately show ?thesis using order by simp
qed

section \<open>The validation of the share address\<close>

text \<open>C4, as the code has it. When the share address does not parse, or parses to an
  address whose host is not \<open>cloud.189.cn\<close> or \<open>www.cloud.189.cn\<close>, or whose path, once
  its blank segments are dropped, has fewer than two segments or a first segment other
  than \<open>t\<close>, then \<open>run\<close> throws a validation error and the request log is what it was: no
  request is issued. For an input object with a share address and a cookie the error is
  \<open>share_url_invalid\<close>, \<open>share_host_invalid\<close> or \<open>share_path_invalid\<close>, in this
  order of the checks.\<close>

theorem invalid_share_address_issues_no_request:
  assumes "\<forall>u. env_parseUrl env (trim (str_or_empty (get_prop (Some input) ''share_url''))) = Some u
             \<longrightarrow> \<not> host_ok u \<or> \<not> path_ok u"
  shows "snd (run P env net log input) = log
       \<and> fst (run P env net log input)
           \<in> Inl ` {MissingField ''TypeError'', ShareUrlEmpty, CookieEmpty, ShareUrlInvalid,
                    ShareHostInvalid, SharePathInvalid}
       \<and> (input \<noteq> JNull
            \<and> trim (str_or_empty (get_prop (Some input) ''share_url'')) \<noteq> []
            \<and> trim (str_or_empty (get_prop (Some input) ''cookie'')) \<noteq> []
          \<longrightarrow> fst (run P env net log input)
                = Inl (case env_parseUrl env
                              (trim (str_or_empty (get_prop (Some input) ''share_url''))) of
                         None \<Rightarrow> ShareUrlInvalid
                       | Some u \<Rightarrow> if \<not> host_ok u then ShareHostInvalid else SharePathInvalid))"
proof (cases "env_parseUrl env (trim (str_or_empty (get_prop (Some input) ''share_url'')))")
  case None
  then show ?thesis by (simp add: run_def Let_def)
next
  case (Some u)
  with assms have "\<not> host_ok u \<or> \<not> path_ok u" by simp
  with Some show ?thesis by (auto simp add: run_def Let_def)
qed

theorem invalid_share_address_issues_no_request_witness:
  "run sample_platform sample_env share_net [] other_host_input = (Inl ShareHostInvalid, [])"
proof -
  have p: "trim (str_or_empty (get_prop (Some other_host_input) ''share_url''))
             = ''https://example.com/t/abc''"
    by code_simp
  have c: "trim (str_or_empty (get_prop (Some other_host_input) ''cookie'')) = ''c''"
    by code_simp
  have h: "\<not> host_ok \<lparr>url_hostname = ''example.com'', url_pathname = ''/t/abc'', url_pwd = None\<rparr>"
    by code_simp
  have e: "env_parseUrl sample_env ''https://example.com/t/abc''
             = Some \<lparr>url_hostname = ''example.com'', url_pathname = ''/t/abc'', url_pwd = None\<rparr>"
    by (simp add: sample_env_def sample_parseUrl_def)
  have n: "other_host_input \<noteq> JNull" by (simp add: other_host_input_def)
  have "snd (run sample_platform sample_env share_net [] other_host_input) = []
      \<and> fst (run sample_platform sample_env share_net [] other_host_input) = Inl ShareHostInvalid"
    using invalid_share_address_issues_no_request
            [of sample_env other_host_input sample_platform share_net "[]"] p c h e n
    by simp
  then show ?thesis by (simp add: prod_eq_iff)
qed

text \<open>The address \<open>https://cloud.189.cn/t/abc/extra\<close> has a path that is not \<open>/t/\<close>
  followed by a code, and \<open>run\<close> resolves it with the code \<open>abc\<close>: it issues the
  request of the share info and the request of the listing.\<close>

theorem extra_segment_is_resolved:
  "\<not> spec_path_matches ''/t/abc/extra''
   \<and> env_parseUrl sample_env ''https://cloud.189.cn/t/abc/extra''
       = Some \<lparr>url_hostname = ''cloud.189.cn'', url_pathname = ''/t/abc/extra'', url_pwd = None\<rparr>
   \<and> run sample_platform sample_env share_net [] extra_segment_input
       = (Inr (ShareSuccess
                 \<lparr>sd_share_code = ''abc'', sd_share_id = ''77'', sd_pwd = [],
                  sd_files = [\<lparr>file_id = ''88'', file_name = ''single-file'', file_size = 0,
                               is_folder = False\<rparr>]\<rparr>
                 [\<lparr>sa_step = ''check_access_code_primary_js'',
                   sa_endpoint = ''/api/open/share/checkAccessCode.action'',
                   sa_ok = False, sa_status = 0, sa_share_id = []\<rparr>,
                  \<lparr>sa_step = ''get_share_info_js'',
                   sa_endpoint = ''/api/open/share/getShareInfoByCodeV2.action'',
                   sa_ok = True, sa_status = 200, sa_share_id = ''77''\<rparr>,
                  \<lparr>sa_step = ''list_share_dir_js'',
                   sa_endpoint = ''/api/open/share/listShareDir.action'',
                   sa_ok = True, sa_status = 200, sa_share_id = ''77''\<rparr>]),
          [ShareGet (infoUrl_of sample_platform ''1700000000000'' ''abc'') [],
           ShareGet (listUrl_of sample_platform ''1700000000000'' False ''77'' ''88'' [])
             [(''Sign-Type'', ''1'')]])"
  by code_simp

section \<open>The download\<close>






section \<open>The result written by each process\<close>

text \<open>C7, as the code has it. The cloud client writes exactly one object, of the shape
  \<open>{ok: true, data}\<close> or \<open>{ok: false, error, diagnostics}\<close>, and its exit status is not
  zero exactly when the object is a failure. The share resolver writes exactly one object
  and its exit status is 0 whatever the object: a success has \<open>data\<close>, a failure has
  \<open>error\<close>, and \<open>diagnostics\<close> is there exactly when \<open>run\<close> returned the object, so a
  failure that \<open>run\<close> throws or an input that does not parse has none.\<close>

theorem each_main_writes_one_result:
  "(\<exists>e. fst (cloud_main runUpload runListVersions runDownloadFile raw) = [e]
         \<and> spec_shape e
         \<and> (snd (cloud_main runUpload runListVersions runDownloadFile raw) \<noteq> 0 \<longleftrightarrow> \<not> em_ok e))
   \<and> (\<exists>e. fst (share_main P env net raw) = [e]
         \<and> fst (snd (share_main P env net raw)) = 0
         \<and> (em_ok e \<longrightarrow> em_has_data e \<and> em_error e = None)
         \<and> (\<not> em_ok e \<longrightarrow> em_error e \<noteq> None)
         \<and> (em_has_diagnostics e \<longleftrightarrow>
              raw \<noteq> Unparseable
              \<and> (\<exists>r. fst (run P env net [] (case raw of Parsed v \<Rightarrow> v | _ \<Rightarrow> JObj [])) = Inr r)))"
proof (rule conjI)
  show "\<exists>e. fst (cloud_main runUpload runListVersions runDownloadFile raw) = [e]
         \<and> spec_shape e
         \<and> (snd (cloud_main runUpload runListVersions runDownloadFile raw) \<noteq> 0 \<longleftrightarrow> \<not> em_ok e)"
  proof (cases "cloud_outcome runUpload runListVersions runDownloadFile raw")
    case (Inl err)
    then show ?thesis by (simp add: cloud_main_def spec_shape_def)
  next
    case (Inr d)
    then show ?thesis by (simp add: cloud_main_def spec_shape_def)
  qed
next
  show "\<exists>e. fst (share_main P env net raw) = [e]
         \<and> fst (snd (share_main P env net raw)) = 0
         \<and> (em_ok e \<longrightarrow> em_has_data e \<and> em_error e = None)
         \<and> (\<not> em_ok e \<longrightarrow> em_error e \<noteq> None)
         \<and> (em_has_diagnostics e \<longleftrightarrow>
              raw \<noteq> Unparseable
              \<and> (\<exists>r. fst (run P env net [] (case raw of Parsed v \<Rightarrow> v | _ \<Rightarrow> JObj [])) = Inr r))"
  proof (cases raw)
    case Unparseable
    then show ?thesis by (simp add: share_main_def)
  next
    case EmptyInput
    then show ?thesis
      by (cases "run P env net [] (JObj [])")
         (auto simp add: share_main_def emit_result_def split: sum.splits share_result.splits)
  next
    case (Parsed v)
    then show ?thesis
      by (cases "run P env net [] v")
         (auto simp add: share_main_def emit_result_def split: sum.splits share_result.splits)
  qed
qed

theorem each_main_writes_one_result_witness:
  "(\<exists>e. fst (cloud_main (\<lambda>p. Inr ()) (\<lambda>p. Inr ()) (\<lambda>p. Inr ()) Unparseable) = [e]
        \<and> \<not> em_ok e \<and> em_error e \<noteq> None \<and> em_has_diagnostics e)
   \<and> (\<exists>e. fst (share_main sample_platform sample_env share_net (Parsed other_host_input)) = [e]
        \<and> fst (snd (share_main sample_platform sample_env share_net (Parsed other_host_input))) = 0
        \<and> \<not> em_has_diagnostics e)"
proof -
  have c: "snd (cloud_main (\<lambda>p. Inr ()) (\<lambda>p. Inr ()) (\<lambda>p. Inr ()) Unparseable) = 1"
    by (simp add: cloud_main_def cloud_outcome_def)
  have r: "fst (run sample_platform sample_env share_net [] other_host_input) = Inl ShareHostInvalid"
    by code_simp
  have "\<exists>e. fst (cloud_main (\<lambda>p. Inr ()) (\<lambda>p. Inr ()) (\<lambda>p. Inr ()) Unparseable) = [e]
        \<and> \<not> em_ok e \<and> em_error e \<noteq> None \<and> em_has_diagnostics e"
    using each_main_writes_one_result
            [of "\<lambda>p. Inr ()" "\<lambda>p. Inr ()" "\<lambda>p. Inr ()" Unparseable
                sample_platform sample_env share_net] c
    by (auto simp add: spec_shape_def split: if_splits)
  moreover have "\<exists>e. fst (share_main sample_platform sample_env share_net (Parsed other_host_input)) = [e]
        \<and> fst (snd (share_main sample_platform sample_env share_net (Parsed other_host_input))) = 0
        \<and> \<not> em_has_diagnostics e"
    using each_main_writes_one_result
            [of "\<lambda>p. Inr ()" "\<lambda>p. Inr ()" "\<lambda>p. Inr ()" "Parsed other_host_input"
                sample_platform sample_env share_net] r
    by auto
  ultimately show ?thesis by blast
qed

text \<open>On an input that does not parse, the share resolver writes a failure with no
  \<open>diagnostics\<close> and ends with status 0.\<close>

theorem resolver_failure_exits_zero:
  "share_main sample_platform sample_env share_net Unparseable
     = ([\<lparr>em_ok = False, em_error = Some (Literal ''stdin_json_invalid''), em_has_data = False,
          em_has_diagnostics = False\<rparr>], 0, [])
   \<and> \<not> spec_shape \<lparr>em_ok = False, em_error = Some (Literal ''stdin_json_invalid''),
                    em_has_data = False, em_has_diagnostics = False\<rparr>"
  by (simp add: share_main_def spec_shape_def)

end
